theory Spec2Isabelle
  imports Main "HOL-Library.Char_ord" "HOL-Library.List_Lexorder" "HOL-Library.Multiset"
    "HOL-Library.Word"
begin

unbundle bit_operations_syntax

section \<open>Go library functions the packages call\<close>

text \<open>
  Go strings and byte slices are sequences of bytes; both are \<^typ>\<open>string\<close> here
  (a \<^typ>\<open>char\<close> is one byte).  The order \<open><\<close> on strings is the lexicographic
  order of the byte values (\<open>Char_ord\<close>, \<open>List_Lexorder\<close>), which is how Go compares
  strings.  Paths use the Unix separator.
\<close>

type_synonym bytes = string

subsection \<open>path/filepath\<close>

text \<open>
  \<^verbatim>\<open>filepath.Ext\<close> walks from the last byte towards the front, stops at a
  separator and returns the text from the first dot it meets.  The first argument
  of the loop is the still unread part of the path, reversed; the second is the
  part already passed.
\<close>

fun ext_loop :: "string \<Rightarrow> string \<Rightarrow> string" where
  "ext_loop [] suf = []"
| "ext_loop (c # r) suf =
     (if c = CHR ''/'' then []
      else if c = CHR ''.'' then c # suf
      else ext_loop r (c # suf))"

definition Ext :: "string \<Rightarrow> string" where
  "Ext path = ext_loop (rev path) []"

text \<open>
  \<^verbatim>\<open>filepath.Base\<close>: the empty path gives a dot, trailing separators are
  dropped, the last element is kept, and a path of separators only gives one
  separator.
\<close>

definition Base :: "string \<Rightarrow> string" where
  "Base path =
     (if path = [] then ''.''
      else let p = rev (dropWhile (\<lambda>c. c = CHR ''/'') (rev path));
               e = rev (takeWhile (\<lambda>c. c \<noteq> CHR ''/'') (rev p))
           in if e = [] then ''/'' else e)"

subsection \<open>strings\<close>

definition lower_byte :: "char \<Rightarrow> char" where
  "lower_byte c =
     (if CHR ''A'' \<le> c \<and> c \<le> CHR ''Z'' then char_of (of_char c + (32::nat)) else c)"

text \<open>
  \<^verbatim>\<open>strings.ToLower\<close> lowers a string of ASCII bytes byte by byte.  A string
  with a byte of 0x80 or more is decoded as UTF-8 and mapped rune by rune through
  the Unicode tables; that mapping is the parameter \<open>uni\<close>.
\<close>

definition ToLower :: "(string \<Rightarrow> string) \<Rightarrow> string \<Rightarrow> string" where
  "ToLower uni s =
     (if list_all (\<lambda>c. of_char c < (128::nat)) s then map lower_byte s else uni s)"

definition HasSuffix :: "string \<Rightarrow> string \<Rightarrow> bool" where
  "HasSuffix s suffix =
     (length suffix \<le> length s \<and> drop (length s - length suffix) s = suffix)"

definition TrimSuffix :: "string \<Rightarrow> string \<Rightarrow> string" where
  "TrimSuffix s suffix =
     (if HasSuffix s suffix then take (length s - length suffix) s else s)"

subsection \<open>fmt\<close>

definition digit :: "nat \<Rightarrow> char" where
  "digit d = char_of (48 + d)"

text \<open>The verb \<^verbatim>\<open>%d\<close> on a number that is not negative.\<close>

function dec :: "nat \<Rightarrow> string" where
  "dec n = (if n < 10 then [digit n] else dec (n div 10) @ [digit (n mod 10)])"
  by pat_completeness auto
termination
  by (relation "measure id") auto

declare dec.simps [simp del]

text \<open>The verb \<^verbatim>\<open>%03d\<close>: at least three digits, zeros in front.\<close>

definition pad3 :: "nat \<Rightarrow> string" where
  "pad3 n = replicate (3 - length (dec n)) CHR ''0'' @ dec n"

subsection \<open>Errors\<close>

text \<open>
  An error is one the library or the operating system reports, or one made by
  \<^verbatim>\<open>fmt.Errorf("...: %w", err)\<close>, which puts a message in front of another
  error.
\<close>

datatype error = LibError string | Wrap string error

section \<open>What the runtime supplies\<close>

text \<open>An entry of the container being read (\<^verbatim>\<open>zip.File\<close>).\<close>

datatype entry_body =
    OpenFails error
  | ReadFails error
  | Body bytes

record zip_file =
  zf_Name :: string
  zf_IsDir :: bool
  zf_Body :: entry_body

text \<open>An entry of the container being written.\<close>

datatype zip_method = Store | Deflate

record zip_entry =
  e_Name :: string
  e_Method :: zip_method
  e_Data :: bytes

record Image =
  Name :: string
  Data :: bytes
  MimeType :: string

text \<open>
  Everything the code gets from outside the repository's source: the Unicode
  lower-case mapping, \<^verbatim>\<open>sort.Slice\<close> (its algorithm is the library's; the
  documentation promises a sorted permutation and no stability),
  \<^verbatim>\<open>zip.OpenReader\<close>, \<^verbatim>\<open>os.Create\<close>, the zip writer (which may refuse a new
  entry or a write, depending on what has been written), the identifier generator
  and the clock.
\<close>

record runtime =
  unicode_lower :: "string \<Rightarrow> string"
  sort_Slice :: "(Image \<Rightarrow> Image \<Rightarrow> bool) \<Rightarrow> Image list \<Rightarrow> Image list"
  OpenReader :: "string \<Rightarrow> error + zip_file list"
  os_Create :: "string \<Rightarrow> error option"
  zip_Create :: "zip_entry list \<Rightarrow> string \<Rightarrow> error option"
  zip_Write :: "zip_entry list \<Rightarrow> bytes \<Rightarrow> error option"
  GenerateUUID :: string
  today :: string

text \<open>
  The zip writer's state is the list of entries in the order they were created.
  \<^verbatim>\<open>Create\<close> and \<^verbatim>\<open>CreateHeader\<close> add an entry with no data; \<^verbatim>\<open>Write\<close>
  appends to the entry created last.
\<close>

definition zw_Create ::
  "runtime \<Rightarrow> zip_entry list \<Rightarrow> zip_method \<Rightarrow> string \<Rightarrow> error + zip_entry list" where
  "zw_Create rt w m name =
     (case zip_Create rt w name of
        Some err \<Rightarrow> Inl err
      | None \<Rightarrow> Inr (w @ [\<lparr>e_Name = name, e_Method = m, e_Data = []\<rparr>]))"

definition zw_Write :: "runtime \<Rightarrow> zip_entry list \<Rightarrow> bytes \<Rightarrow> error + zip_entry list" where
  "zw_Write rt w data =
     (case zip_Write rt w data of
        Some err \<Rightarrow> Inl err
      | None \<Rightarrow> Inr (butlast w @ [(last w)\<lparr>e_Data := e_Data (last w) @ data\<rparr>]))"

section \<open>Package cbz\<close>

record File =
  File_Name :: string
  Images :: "Image list"

definition isImageFile :: "(string \<Rightarrow> string) \<Rightarrow> string \<Rightarrow> bool" where
  "isImageFile uni filename =
     (let ext = ToLower uni (Ext filename)
      in ext = ''.jpg'' \<or> ext = ''.jpeg'' \<or> ext = ''.png'' \<or> ext = ''.gif''
         \<or> ext = ''.webp'')"

definition getMimeType :: "(string \<Rightarrow> string) \<Rightarrow> string \<Rightarrow> string" where
  "getMimeType uni filename =
     (let ext = ToLower uni (Ext filename)
      in if ext = ''.jpg'' \<or> ext = ''.jpeg'' then ''image/jpeg''
         else if ext = ''.png'' then ''image/png''
         else if ext = ''.gif'' then ''image/gif''
         else if ext = ''.webp'' then ''image/webp''
         else ''application/octet-stream'')"

text \<open>The loop of \<^verbatim>\<open>ReadFile\<close> over the entries of the container.\<close>

fun read_entries ::
  "(string \<Rightarrow> string) \<Rightarrow> zip_file list \<Rightarrow> Image list \<Rightarrow> error + Image list" where
  "read_entries uni [] images = Inr images"
| "read_entries uni (file # rest) images =
     (if zf_IsDir file \<or> \<not> isImageFile uni (zf_Name file)
      then read_entries uni rest images
      else case zf_Body file of
          OpenFails err \<Rightarrow> Inl (Wrap ''failed to open file in CBZ'' err)
        | ReadFails err \<Rightarrow> Inl (Wrap ''failed to read file data'' err)
        | Body data \<Rightarrow>
            read_entries uni rest
              (images @ [\<lparr>Name = Base (zf_Name file), Data = data,
                          MimeType = getMimeType uni (zf_Name file)\<rparr>]))"

definition name_less :: "Image \<Rightarrow> Image \<Rightarrow> bool" where
  "name_less a b = (Name a < Name b)"

definition ReadFile :: "runtime \<Rightarrow> string \<Rightarrow> error + File" where
  "ReadFile rt filename =
     (case OpenReader rt filename of
        Inl err \<Rightarrow> Inl (Wrap ''failed to open CBZ file'' err)
      | Inr files \<Rightarrow>
          (case read_entries (unicode_lower rt) files [] of
             Inl err \<Rightarrow> Inl err
           | Inr images \<Rightarrow>
               Inr \<lparr>File_Name = filename, Images = sort_Slice rt name_less images\<rparr>))"

text \<open>
  The state of \<^verbatim>\<open>MergeFiles\<close>: the entries written to the output container,
  the paths handed to \<^verbatim>\<open>ReadFile\<close> in the order of the calls, and the image
  counter.
\<close>

record merge_state =
  written :: "zip_entry list"
  opened :: "string list"
  imageCounter :: nat

text \<open>The inner loop, over the images of one input; \<open>c\<close> is \<^verbatim>\<open>chapterIndex\<close>.\<close>

fun merge_images :: "runtime \<Rightarrow> nat \<Rightarrow> Image list \<Rightarrow> merge_state \<Rightarrow> merge_state \<times> error option"
  where
  "merge_images rt c [] s = (s, None)"
| "merge_images rt c (img # rest) s =
     (let ext = Ext (Name img);
          newName = ''chapter'' @ pad3 (c + 1) @ ''_'' @ pad3 (imageCounter s) @ ext;
          s1 = s\<lparr>imageCounter := imageCounter s + 1\<rparr>
      in case zw_Create rt (written s1) Deflate newName of
           Inl err \<Rightarrow> (s1, Some (Wrap ''failed to create file in output zip'' err))
         | Inr w1 \<Rightarrow>
             (case zw_Write rt w1 (Data img) of
                Inl err \<Rightarrow> (s1\<lparr>written := w1\<rparr>, Some (Wrap ''failed to write image data'' err))
              | Inr w2 \<Rightarrow> merge_images rt c rest (s1\<lparr>written := w2\<rparr>)))"

text \<open>The outer loop, over the input paths.\<close>

fun merge_inputs :: "runtime \<Rightarrow> nat \<Rightarrow> string list \<Rightarrow> merge_state \<Rightarrow> merge_state \<times> error option"
  where
  "merge_inputs rt c [] s = (s, None)"
| "merge_inputs rt c (inputFile # rest) s =
     (let s1 = s\<lparr>opened := opened s @ [inputFile]\<rparr>
      in case ReadFile rt inputFile of
           Inl err \<Rightarrow> (s1, Some (Wrap (''failed to read input file '' @ inputFile) err))
         | Inr cbzFile \<Rightarrow>
             (case merge_images rt c (Images cbzFile) s1 of
                (s2, Some err) \<Rightarrow> (s2, Some err)
              | (s2, None) \<Rightarrow> merge_inputs rt (c + 1) rest s2))"

definition MergeFiles :: "runtime \<Rightarrow> string list \<Rightarrow> string \<Rightarrow> merge_state \<times> error option" where
  "MergeFiles rt inputFiles outputFile =
     (let s0 = \<lparr>written = [], opened = [], imageCounter = 1\<rparr>
      in case os_Create rt outputFile of
           Some err \<Rightarrow> (s0, Some (Wrap ''failed to create output file'' err))
         | None \<Rightarrow> merge_inputs rt 0 inputFiles s0)"

section \<open>Package epub\<close>

subsection \<open>The text written into the container\<close>

definition mimetype_bytes :: bytes where
  "mimetype_bytes = ''application/epub+zip''"

definition container_xml :: bytes where
  "container_xml = ''<?xml version=\"1.0\" encoding=\"UTF-8\"?>
<container version=\"1.0\" xmlns=\"urn:oasis:names:tc:opendocument:xmlns:container\">
  <rootfiles>
    <rootfile full-path=\"OEBPS/content.opf\" media-type=\"application/oebps-package+xml\"/>
  </rootfiles>
</container>''"

text \<open>The start of \<^verbatim>\<open>content.opf\<close>, with the title, the identifier and the date.\<close>

definition opf_header :: "string \<Rightarrow> string \<Rightarrow> string \<Rightarrow> string" where
  "opf_header title uuid date = ''<?xml version=\"1.0\" encoding=\"UTF-8\"?>
<package xmlns=\"http://www.idpf.org/2007/opf\" unique-identifier=\"BookID\" version=\"2.0\">
  <metadata xmlns:dc=\"http://purl.org/dc/elements/1.1/\" xmlns:opf=\"http://www.idpf.org/2007/opf\">
    <dc:title>'' @ title @ ''</dc:title>
    <dc:language>en</dc:language>
    <dc:identifier id=\"BookID\">urn:uuid:'' @ uuid @ ''</dc:identifier>
    <dc:date>'' @ date @ ''</dc:date>
    <dc:creator>CBZ2EPUB Converter</dc:creator>
  </metadata>
  <manifest>
    <item id=\"ncx\" href=\"toc.ncx\" media-type=\"application/x-dtbncx+xml\"/>
''"

definition image_item :: "nat \<Rightarrow> string \<Rightarrow> string \<Rightarrow> string" where
  "image_item n newName mime =
     ''    <item id=\"image'' @ pad3 n @ ''\" href=\"images/'' @ newName
       @ ''\" media-type=\"'' @ mime @ ''\"/>
''"

definition page_item :: "nat \<Rightarrow> string \<Rightarrow> string" where
  "page_item n pageName =
     ''    <item id=\"page'' @ pad3 n @ ''\" href=\"pages/'' @ pageName
       @ ''\" media-type=\"application/xhtml+xml\"/>
''"

definition page_xhtml :: "nat \<Rightarrow> string \<Rightarrow> bytes" where
  "page_xhtml n newName = ''<?xml version=\"1.0\" encoding=\"UTF-8\"?>
<!DOCTYPE html PUBLIC \"-//W3C//DTD XHTML 1.1//EN\" \"http://www.w3.org/TR/xhtml11/DTD/xhtml11.dtd\">
<html xmlns=\"http://www.w3.org/1999/xhtml\">
<head>
  <title>Page '' @ dec n @ ''</title>
  <style type=\"text/css\">
    img { max-width: 100%; max-height: 100%; }
    body { margin: 0; padding: 0; text-align: center; }
  </style>
</head>
<body>
  <div>
    <img src=\"../images/'' @ newName @ ''\" alt=\"Page '' @ dec n @ ''\" />
  </div>
</body>
</html>''"

definition spine_open :: string where
  "spine_open = ''  </manifest>
  <spine toc=\"ncx\">
''"

definition itemref :: "nat \<Rightarrow> string" where
  "itemref n = ''    <itemref idref=\"page'' @ pad3 n @ ''\"/>
''"

definition spine_close :: string where
  "spine_close = ''  </spine>
</package>''"

text \<open>The start of \<^verbatim>\<open>toc.ncx\<close>, with the identifier and the title.\<close>

definition ncx_header :: "string \<Rightarrow> string \<Rightarrow> string" where
  "ncx_header uuid title = ''<?xml version=\"1.0\" encoding=\"UTF-8\"?>
<!DOCTYPE ncx PUBLIC \"-//NISO//DTD ncx 2005-1//EN\" \"http://www.daisy.org/z3986/2005/ncx-2005-1.dtd\">
<ncx xmlns=\"http://www.daisy.org/z3986/2005/ncx/\" version=\"2005-1\">
  <head>
    <meta name=\"dtb:uid\" content=\"urn:uuid:'' @ uuid @ ''\"/>
    <meta name=\"dtb:depth\" content=\"1\"/>
    <meta name=\"dtb:totalPageCount\" content=\"0\"/>
    <meta name=\"dtb:maxPageNumber\" content=\"0\"/>
  </head>
  <docTitle>
    <text>'' @ title @ ''</text>
  </docTitle>
  <navMap>
''"

definition navPoint :: "nat \<Rightarrow> string" where
  "navPoint n = ''    <navPoint id=\"navpoint-'' @ dec n @ ''\" playOrder=\"'' @ dec n @ ''\">
      <navLabel>
        <text>Page '' @ dec n @ ''</text>
      </navLabel>
      <content src=\"pages/page'' @ pad3 n @ ''.xhtml\"/>
    </navPoint>
''"

definition ncx_close :: string where
  "ncx_close = ''  </navMap>
</ncx>''"

subsection \<open>ConvertFromCBZ\<close>

text \<open>
  The state of \<^verbatim>\<open>ConvertFromCBZ\<close>: the entries written to the output container
  and the two text buffers.
\<close>

record epub_state =
  zw :: "zip_entry list"
  contentOPF :: string
  tocNCX :: string

type_synonym step = "epub_state \<Rightarrow> epub_state \<times> error option"

text \<open>
  A call of \<^verbatim>\<open>Create\<close> (or \<^verbatim>\<open>CreateHeader\<close>) or of \<^verbatim>\<open>Write\<close>, followed by
  the source's \<^verbatim>\<open>if err != nil { return fmt.Errorf(msg, err) }\<close>.
\<close>

definition create_entry :: "runtime \<Rightarrow> string \<Rightarrow> zip_method \<Rightarrow> string \<Rightarrow> step" where
  "create_entry rt msg m name s =
     (case zw_Create rt (zw s) m name of
        Inl err \<Rightarrow> (s, Some (Wrap msg err))
      | Inr w \<Rightarrow> (s\<lparr>zw := w\<rparr>, None))"

definition write_entry :: "runtime \<Rightarrow> string \<Rightarrow> bytes \<Rightarrow> step" where
  "write_entry rt msg data s =
     (case zw_Write rt (zw s) data of
        Inl err \<Rightarrow> (s, Some (Wrap msg err))
      | Inr w \<Rightarrow> (s\<lparr>zw := w\<rparr>, None))"

text \<open>A statement that cannot fail.\<close>

definition assign :: "(epub_state \<Rightarrow> epub_state) \<Rightarrow> step" where
  "assign f s = (f s, None)"

text \<open>Statements in sequence: the first error returns.\<close>

fun run :: "step list \<Rightarrow> step" where
  "run [] s = (s, None)"
| "run (f # fs) s = (case f s of (s', Some err) \<Rightarrow> (s', Some err) | (s', None) \<Rightarrow> run fs s')"

text \<open>The first loop: the manifest line and the container entry of every image.\<close>

fun add_images :: "runtime \<Rightarrow> nat \<Rightarrow> Image list \<Rightarrow> step" where
  "add_images rt i [] s = (s, None)"
| "add_images rt i (img # rest) s =
     (let ext = Ext (Name img);
          newName = ''image'' @ pad3 (i + 1) @ ext
      in run
          [assign (\<lambda>s. s\<lparr>contentOPF :=
              contentOPF s @ image_item (i + 1) newName (MimeType img)\<rparr>),
           create_entry rt ''failed to create image file'' Deflate (''OEBPS/images/'' @ newName),
           write_entry rt ''failed to write image data'' (Data img),
           add_images rt (i + 1) rest] s)"

text \<open>The second loop: the manifest line and the page of every image.\<close>

fun add_pages :: "runtime \<Rightarrow> nat \<Rightarrow> Image list \<Rightarrow> step" where
  "add_pages rt i [] s = (s, None)"
| "add_pages rt i (img # rest) s =
     (let ext = Ext (Name img);
          newName = ''image'' @ pad3 (i + 1) @ ext;
          pageName = ''page'' @ pad3 (i + 1) @ ''.xhtml''
      in run
          [assign (\<lambda>s. s\<lparr>contentOPF := contentOPF s @ page_item (i + 1) pageName\<rparr>),
           create_entry rt ''failed to create page file'' Deflate (''OEBPS/pages/'' @ pageName),
           write_entry rt ''failed to write page content'' (page_xhtml (i + 1) newName),
           add_pages rt (i + 1) rest] s)"

text \<open>The third and the fourth loop use the index only.\<close>

fun add_spine :: "nat \<Rightarrow> Image list \<Rightarrow> epub_state \<Rightarrow> epub_state" where
  "add_spine i [] s = s"
| "add_spine i (img # rest) s =
     add_spine (i + 1) rest (s\<lparr>contentOPF := contentOPF s @ itemref (i + 1)\<rparr>)"

fun add_navMap :: "nat \<Rightarrow> Image list \<Rightarrow> epub_state \<Rightarrow> epub_state" where
  "add_navMap i [] s = s"
| "add_navMap i (img # rest) s =
     add_navMap (i + 1) rest (s\<lparr>tocNCX := tocNCX s @ navPoint (i + 1)\<rparr>)"

definition ConvertFromCBZ :: "runtime \<Rightarrow> File \<Rightarrow> string \<Rightarrow> epub_state \<times> error option" where
  "ConvertFromCBZ rt cbzFile outputFile =
     (let s0 = \<lparr>zw = [], contentOPF = [], tocNCX = []\<rparr>;
          title = TrimSuffix (Base (File_Name cbzFile)) ''.cbz'';
          date = today rt;
          uuid = GenerateUUID rt
      in case os_Create rt outputFile of
           Some err \<Rightarrow> (s0, Some (Wrap ''failed to create output file'' err))
         | None \<Rightarrow>
             run
              [create_entry rt ''failed to create mimetype file'' Store ''mimetype'',
               write_entry rt ''failed to write mimetype file'' mimetype_bytes,
               create_entry rt ''failed to create container.xml'' Deflate
                 ''META-INF/container.xml'',
               write_entry rt ''failed to write container.xml'' container_xml,
               assign (\<lambda>s. s\<lparr>contentOPF := opf_header title uuid date\<rparr>),
               add_images rt 0 (Images cbzFile),
               add_pages rt 0 (Images cbzFile),
               assign (\<lambda>s. s\<lparr>contentOPF := contentOPF s @ spine_open\<rparr>),
               assign (add_spine 0 (Images cbzFile)),
               assign (\<lambda>s. s\<lparr>contentOPF := contentOPF s @ spine_close\<rparr>),
               create_entry rt ''failed to create content.opf'' Deflate ''OEBPS/content.opf'',
               (\<lambda>s. write_entry rt ''failed to write content.opf'' (contentOPF s) s),
               assign (\<lambda>s. s\<lparr>tocNCX := ncx_header uuid title\<rparr>),
               assign (add_navMap 0 (Images cbzFile)),
               assign (\<lambda>s. s\<lparr>tocNCX := tocNCX s @ ncx_close\<rparr>),
               create_entry rt ''failed to create toc.ncx'' Deflate ''OEBPS/toc.ncx'',
               (\<lambda>s. write_entry rt ''failed to write toc.ncx'' (tocNCX s) s)]
              s0)"

definition ConvertFile :: "runtime \<Rightarrow> string \<Rightarrow> string \<Rightarrow> epub_state option \<times> error option"
  where
  "ConvertFile rt inputFile outputFile =
     (case ReadFile rt inputFile of
        Inl err \<Rightarrow> (None, Some (Wrap ''failed to read CBZ file'' err))
      | Inr cbzFile \<Rightarrow>
          (case ConvertFromCBZ rt cbzFile outputFile of
             (s, Some err) \<Rightarrow> (Some s, Some (Wrap ''failed to convert to EPUB'' err))
           | (s, None) \<Rightarrow> (Some s, None)))"

section \<open>sort.Slice in the Go library\<close>

text \<open>
  Since release 1.19 \<^verbatim>\<open>sort.Slice\<close> is a pattern-defeating quicksort
  (\<^verbatim>\<open>pdqsort_func\<close> in \<^verbatim>\<open>sort/zsortfunc.go\<close>): insertion sort on ranges
  of at most twelve elements, heap sort once the limit of badly balanced
  partitions is used up.  The slice is a list, an index is a natural number, and
  \<^verbatim>\<open>data.Less(i, j)\<close> is \<open>lt (xs ! i) (xs ! j)\<close>.  Every function takes the
  slice and returns the slice it leaves.
\<close>

definition swap :: "'a list \<Rightarrow> nat \<Rightarrow> nat \<Rightarrow> 'a list" where
  "swap xs i j = xs[i := xs ! j, j := xs ! i]"

subsection \<open>Insertion sort\<close>

function insert_down :: "('a \<Rightarrow> 'a \<Rightarrow> bool) \<Rightarrow> 'a list \<Rightarrow> nat \<Rightarrow> nat \<Rightarrow> 'a list" where
  "insert_down lt xs a j =
     (if a < j \<and> lt (xs ! j) (xs ! (j - 1))
      then insert_down lt (swap xs j (j - 1)) a (j - 1)
      else xs)"
  by pat_completeness auto
termination
  by (relation "measure (\<lambda>(lt, xs, a, j). j)") auto

declare insert_down.simps [simp del]

function insertion_loop ::
  "('a \<Rightarrow> 'a \<Rightarrow> bool) \<Rightarrow> 'a list \<Rightarrow> nat \<Rightarrow> nat \<Rightarrow> nat \<Rightarrow> 'a list" where
  "insertion_loop lt xs a i b =
     (if i < b then insertion_loop lt (insert_down lt xs a i) a (i + 1) b else xs)"
  by pat_completeness auto
termination
  by (relation "measure (\<lambda>(lt, xs, a, i, b). b - i)") auto

declare insertion_loop.simps [simp del]

definition insertionSortLessFunc ::
  "('a \<Rightarrow> 'a \<Rightarrow> bool) \<Rightarrow> 'a list \<Rightarrow> nat \<Rightarrow> nat \<Rightarrow> 'a list" where
  "insertionSortLessFunc lt xs a b = insertion_loop lt xs a (a + 1) b"

subsection \<open>Heap sort\<close>

function siftDownLessFunc ::
  "('a \<Rightarrow> 'a \<Rightarrow> bool) \<Rightarrow> 'a list \<Rightarrow> nat \<Rightarrow> nat \<Rightarrow> nat \<Rightarrow> 'a list" where
  "siftDownLessFunc lt xs root hi first =
     (let child = 2 * root + 1 in
      if child \<ge> hi then xs
      else
        let child' =
              (if child + 1 < hi \<and> lt (xs ! (first + child)) (xs ! (first + child + 1))
               then child + 1 else child)
        in if \<not> lt (xs ! (first + root)) (xs ! (first + child')) then xs
           else siftDownLessFunc lt (swap xs (first + root) (first + child')) child' hi first)"
  by pat_completeness auto
termination
  by (relation "measure (\<lambda>(lt, xs, root, hi, first). hi - root)") (auto simp: Let_def)

declare siftDownLessFunc.simps [simp del]

text \<open>
  The two loops of \<^verbatim>\<open>heapSortLessFunc\<close> count \<open>i\<close> down to zero and stop below
  it; here the counter is \<open>i + 1\<close>.
\<close>

fun heap_build :: "('a \<Rightarrow> 'a \<Rightarrow> bool) \<Rightarrow> 'a list \<Rightarrow> nat \<Rightarrow> nat \<Rightarrow> nat \<Rightarrow> 'a list" where
  "heap_build lt xs 0 hi first = xs"
| "heap_build lt xs (Suc i) hi first =
     heap_build lt (siftDownLessFunc lt xs i hi first) i hi first"

fun heap_pop :: "('a \<Rightarrow> 'a \<Rightarrow> bool) \<Rightarrow> 'a list \<Rightarrow> nat \<Rightarrow> nat \<Rightarrow> 'a list" where
  "heap_pop lt xs 0 first = xs"
| "heap_pop lt xs (Suc i) first =
     heap_pop lt (siftDownLessFunc lt (swap xs first (first + i)) 0 i first) i first"

definition heapSortLessFunc ::
  "('a \<Rightarrow> 'a \<Rightarrow> bool) \<Rightarrow> 'a list \<Rightarrow> nat \<Rightarrow> nat \<Rightarrow> 'a list" where
  "heapSortLessFunc lt xs a b =
     (let first = a; hi = b - a;
          xs1 = heap_build lt xs ((hi - 1) div 2 + 1) hi first
      in heap_pop lt xs1 hi first)"

subsection \<open>Partitioning\<close>

text \<open>
  The scans of the partition loops.  The index \<open>i\<close> starts above \<open>a\<close>, so in
  every call \<open>i \<le> j\<close> makes \<open>j\<close> positive; the downward scans say so for their
  termination.
\<close>

function scan_up :: "('a \<Rightarrow> 'a \<Rightarrow> bool) \<Rightarrow> 'a list \<Rightarrow> nat \<Rightarrow> nat \<Rightarrow> nat \<Rightarrow> nat" where
  "scan_up lt xs a i j =
     (if i \<le> j \<and> lt (xs ! i) (xs ! a) then scan_up lt xs a (i + 1) j else i)"
  by pat_completeness auto
termination
  by (relation "measure (\<lambda>(lt, xs, a, i, j). j + 1 - i)") auto

declare scan_up.simps [simp del]

function scan_down :: "('a \<Rightarrow> 'a \<Rightarrow> bool) \<Rightarrow> 'a list \<Rightarrow> nat \<Rightarrow> nat \<Rightarrow> nat \<Rightarrow> nat" where
  "scan_down lt xs a i j =
     (if 0 < j \<and> i \<le> j \<and> \<not> lt (xs ! j) (xs ! a) then scan_down lt xs a i (j - 1) else j)"
  by pat_completeness auto
termination
  by (relation "measure (\<lambda>(lt, xs, a, i, j). j)") auto

declare scan_down.simps [simp del]

function scan_up_eq :: "('a \<Rightarrow> 'a \<Rightarrow> bool) \<Rightarrow> 'a list \<Rightarrow> nat \<Rightarrow> nat \<Rightarrow> nat \<Rightarrow> nat" where
  "scan_up_eq lt xs a i j =
     (if i \<le> j \<and> \<not> lt (xs ! a) (xs ! i) then scan_up_eq lt xs a (i + 1) j else i)"
  by pat_completeness auto
termination
  by (relation "measure (\<lambda>(lt, xs, a, i, j). j + 1 - i)") auto

declare scan_up_eq.simps [simp del]

function scan_down_eq :: "('a \<Rightarrow> 'a \<Rightarrow> bool) \<Rightarrow> 'a list \<Rightarrow> nat \<Rightarrow> nat \<Rightarrow> nat \<Rightarrow> nat" where
  "scan_down_eq lt xs a i j =
     (if 0 < j \<and> i \<le> j \<and> lt (xs ! a) (xs ! j) then scan_down_eq lt xs a i (j - 1) else j)"
  by pat_completeness auto
termination
  by (relation "measure (\<lambda>(lt, xs, a, i, j). j)") auto

declare scan_down_eq.simps [simp del]

lemma scan_up_ge: "i \<le> scan_up lt xs a i j"
proof (induction lt xs a i j rule: scan_up.induct)
  case (1 lt xs a i j)
  then show ?case
    by (subst scan_up.simps) (auto simp: Suc_leD)
qed

lemma scan_down_le: "scan_down lt xs a i j \<le> j"
proof (induction lt xs a i j rule: scan_down.induct)
  case (1 lt xs a i j)
  then show ?case
    by (subst scan_down.simps) (auto intro: le_trans)
qed

lemma scan_up_eq_ge: "i \<le> scan_up_eq lt xs a i j"
proof (induction lt xs a i j rule: scan_up_eq.induct)
  case (1 lt xs a i j)
  then show ?case
    by (subst scan_up_eq.simps) (auto simp: Suc_leD)
qed

lemma scan_down_eq_le: "scan_down_eq lt xs a i j \<le> j"
proof (induction lt xs a i j rule: scan_down_eq.induct)
  case (1 lt xs a i j)
  then show ?case
    by (subst scan_down_eq.simps) (auto intro: le_trans)
qed

text \<open>The loop of \<^verbatim>\<open>partitionLessFunc\<close>; it returns the slice and \<open>j\<close>.\<close>

function partition_loop ::
  "('a \<Rightarrow> 'a \<Rightarrow> bool) \<Rightarrow> 'a list \<Rightarrow> nat \<Rightarrow> nat \<Rightarrow> nat \<Rightarrow> 'a list \<times> nat" where
  "partition_loop lt xs a i j =
     (let i1 = scan_up lt xs a i j;
          j1 = scan_down lt xs a i1 j
      in if i1 > j1 then (xs, j1)
         else partition_loop lt (swap xs i1 j1) a (i1 + 1) (j1 - 1))"
  by pat_completeness auto
termination
proof (relation "measure (\<lambda>(lt, xs, a, i, j). j + 1 - i)", goal_cases)
  case 1
  show ?case by simp
next
  case (2 lt xs a i j i1 j1)
  have "i \<le> i1" "j1 \<le> j"
    using 2 scan_up_ge [of i lt xs a j] scan_down_le [of lt xs a i1 j] by auto
  with 2 show ?case by auto
qed

declare partition_loop.simps [simp del]

definition partitionLessFunc ::
  "('a \<Rightarrow> 'a \<Rightarrow> bool) \<Rightarrow> 'a list \<Rightarrow> nat \<Rightarrow> nat \<Rightarrow> nat \<Rightarrow> 'a list \<times> nat \<times> bool" where
  "partitionLessFunc lt xs a b pivot =
     (let xs1 = swap xs a pivot;
          i = scan_up lt xs1 a (a + 1) (b - 1);
          j = scan_down lt xs1 a i (b - 1)
      in if i > j then (swap xs1 j a, j, True)
         else
           let (xs2, j2) = partition_loop lt (swap xs1 i j) a (i + 1) (j - 1)
           in (swap xs2 j2 a, j2, False))"

text \<open>The loop of \<^verbatim>\<open>partitionEqualLessFunc\<close>; it returns the slice and \<open>i\<close>.\<close>

function partition_eq_loop ::
  "('a \<Rightarrow> 'a \<Rightarrow> bool) \<Rightarrow> 'a list \<Rightarrow> nat \<Rightarrow> nat \<Rightarrow> nat \<Rightarrow> 'a list \<times> nat" where
  "partition_eq_loop lt xs a i j =
     (let i1 = scan_up_eq lt xs a i j;
          j1 = scan_down_eq lt xs a i1 j
      in if i1 > j1 then (xs, i1)
         else partition_eq_loop lt (swap xs i1 j1) a (i1 + 1) (j1 - 1))"
  by pat_completeness auto
termination
proof (relation "measure (\<lambda>(lt, xs, a, i, j). j + 1 - i)", goal_cases)
  case 1
  show ?case by simp
next
  case (2 lt xs a i j i1 j1)
  have "i \<le> i1" "j1 \<le> j"
    using 2 scan_up_eq_ge [of i lt xs a j] scan_down_eq_le [of lt xs a i1 j] by auto
  with 2 show ?case by auto
qed

declare partition_eq_loop.simps [simp del]

definition partitionEqualLessFunc ::
  "('a \<Rightarrow> 'a \<Rightarrow> bool) \<Rightarrow> 'a list \<Rightarrow> nat \<Rightarrow> nat \<Rightarrow> nat \<Rightarrow> 'a list \<times> nat" where
  "partitionEqualLessFunc lt xs a b pivot =
     partition_eq_loop lt (swap xs a pivot) a (a + 1) (b - 1)"

subsection \<open>Partial insertion sort\<close>

function skip_sorted :: "('a \<Rightarrow> 'a \<Rightarrow> bool) \<Rightarrow> 'a list \<Rightarrow> nat \<Rightarrow> nat \<Rightarrow> nat" where
  "skip_sorted lt xs i b =
     (if i < b \<and> \<not> lt (xs ! i) (xs ! (i - 1)) then skip_sorted lt xs (i + 1) b else i)"
  by pat_completeness auto
termination
  by (relation "measure (\<lambda>(lt, xs, i, b). b - i)") auto

declare skip_sorted.simps [simp del]

function shift_left :: "('a \<Rightarrow> 'a \<Rightarrow> bool) \<Rightarrow> 'a list \<Rightarrow> nat \<Rightarrow> 'a list" where
  "shift_left lt xs j =
     (if 1 \<le> j \<and> lt (xs ! j) (xs ! (j - 1)) then shift_left lt (swap xs j (j - 1)) (j - 1)
      else xs)"
  by pat_completeness auto
termination
  by (relation "measure (\<lambda>(lt, xs, j). j)") auto

declare shift_left.simps [simp del]

function shift_right :: "('a \<Rightarrow> 'a \<Rightarrow> bool) \<Rightarrow> 'a list \<Rightarrow> nat \<Rightarrow> nat \<Rightarrow> 'a list" where
  "shift_right lt xs j b =
     (if j < b \<and> lt (xs ! j) (xs ! (j - 1)) then shift_right lt (swap xs j (j - 1)) (j + 1) b
      else xs)"
  by pat_completeness auto
termination
  by (relation "measure (\<lambda>(lt, xs, j, b). b - j)") auto

declare shift_right.simps [simp del]

text \<open>
  The outer loop of \<^verbatim>\<open>partialInsertionSortLessFunc\<close> runs at most
  \<^verbatim>\<open>maxSteps\<close> times; the last argument is the number of rounds left.
\<close>

fun partial_steps ::
  "('a \<Rightarrow> 'a \<Rightarrow> bool) \<Rightarrow> 'a list \<Rightarrow> nat \<Rightarrow> nat \<Rightarrow> nat \<Rightarrow> nat \<Rightarrow> 'a list \<times> bool" where
  "partial_steps lt xs a b i 0 = (xs, False)"
| "partial_steps lt xs a b i (Suc n) =
     (let i1 = skip_sorted lt xs i b in
      if i1 = b then (xs, True)
      else if b - a < 50 then (xs, False)
      else
        let xs1 = swap xs i1 (i1 - 1);
            xs2 = (if i1 - a \<ge> 2 then shift_left lt xs1 (i1 - 1) else xs1);
            xs3 = (if b - i1 \<ge> 2 then shift_right lt xs2 (i1 + 1) b else xs2)
        in partial_steps lt xs3 a b i1 n)"

definition partialInsertionSortLessFunc ::
  "('a \<Rightarrow> 'a \<Rightarrow> bool) \<Rightarrow> 'a list \<Rightarrow> nat \<Rightarrow> nat \<Rightarrow> 'a list \<times> bool" where
  "partialInsertionSortLessFunc lt xs a b = partial_steps lt xs a b (a + 1) 5"

subsection \<open>Breaking patterns\<close>

definition xorshift_Next :: "64 word \<Rightarrow> 64 word" where
  "xorshift_Next r =
     (let r1 = r XOR push_bit 13 r;
          r2 = r1 XOR drop_bit 7 r1
      in r2 XOR push_bit 17 r2)"

text \<open>\<^verbatim>\<open>bits.Len\<close>: the number of bits of a number.\<close>

function bits_Len :: "nat \<Rightarrow> nat" where
  "bits_Len n = (if n = 0 then 0 else 1 + bits_Len (n div 2))"
  by pat_completeness auto
termination
  by (relation "measure id") auto

declare bits_Len.simps [simp del]

definition nextPowerOfTwo :: "nat \<Rightarrow> 64 word" where
  "nextPowerOfTwo len = push_bit (bits_Len len) 1"

text \<open>
  One round of the loop of \<^verbatim>\<open>breakPatternsLessFunc\<close>: round \<open>i\<close> swaps the
  element at \<open>idx + i\<close> with one at a pseudo-random place of the range.
\<close>

definition break_step ::
  "nat \<Rightarrow> nat \<Rightarrow> 64 word \<Rightarrow> nat \<Rightarrow> nat \<Rightarrow> 'a list \<times> 64 word \<Rightarrow> 'a list \<times> 64 word" where
  "break_step a len modulus idx i st =
     (let random = xorshift_Next (snd st);
          other = unat (random AND (modulus - 1));
          other' = (if other \<ge> len then other - len else other)
      in (swap (fst st) (idx + i) (a + other'), random))"

definition breakPatternsLessFunc :: "'a list \<Rightarrow> nat \<Rightarrow> nat \<Rightarrow> 'a list" where
  "breakPatternsLessFunc xs a b =
     (let len = b - a in
      if len \<ge> 8 then
        let random = (word_of_nat len :: 64 word);
            modulus = nextPowerOfTwo len;
            idx = a + (len div 4) * 2 - 1
        in fst (break_step a len modulus idx 2
                 (break_step a len modulus idx 1
                   (break_step a len modulus idx 0 (xs, random))))
      else xs)"

subsection \<open>Choosing the pivot\<close>

datatype sortedHint = unknownHint | increasingHint | decreasingHint

definition order2LessFunc ::
  "('a \<Rightarrow> 'a \<Rightarrow> bool) \<Rightarrow> 'a list \<Rightarrow> nat \<Rightarrow> nat \<Rightarrow> nat \<Rightarrow> nat \<times> nat \<times> nat" where
  "order2LessFunc lt xs a b swaps =
     (if lt (xs ! b) (xs ! a) then (b, a, swaps + 1) else (a, b, swaps))"

definition medianLessFunc ::
  "('a \<Rightarrow> 'a \<Rightarrow> bool) \<Rightarrow> 'a list \<Rightarrow> nat \<Rightarrow> nat \<Rightarrow> nat \<Rightarrow> nat \<Rightarrow> nat \<times> nat" where
  "medianLessFunc lt xs a b c swaps =
     (let (a1, b1, s1) = order2LessFunc lt xs a b swaps;
          (b2, c2, s2) = order2LessFunc lt xs b1 c s1;
          (a3, b3, s3) = order2LessFunc lt xs a1 b2 s2
      in (b3, s3))"

definition medianAdjacentLessFunc ::
  "('a \<Rightarrow> 'a \<Rightarrow> bool) \<Rightarrow> 'a list \<Rightarrow> nat \<Rightarrow> nat \<Rightarrow> nat \<times> nat" where
  "medianAdjacentLessFunc lt xs a swaps = medianLessFunc lt xs (a - 1) a (a + 1) swaps"

definition choosePivotLessFunc ::
  "('a \<Rightarrow> 'a \<Rightarrow> bool) \<Rightarrow> 'a list \<Rightarrow> nat \<Rightarrow> nat \<Rightarrow> nat \<times> sortedHint" where
  "choosePivotLessFunc lt xs a b =
     (let l = b - a;
          i = a + l div 4 * 1;
          j = a + l div 4 * 2;
          k = a + l div 4 * 3;
          (j', swaps) =
            (if l \<ge> 8 then
               if l \<ge> 50 then
                 let (i1, s1) = medianAdjacentLessFunc lt xs i 0;
                     (j1, s2) = medianAdjacentLessFunc lt xs j s1;
                     (k1, s3) = medianAdjacentLessFunc lt xs k s2
                 in medianLessFunc lt xs i1 j1 k1 s3
               else medianLessFunc lt xs i j k 0
             else (j, 0))
      in if swaps = 0 then (j', increasingHint)
         else if swaps = 4 * 3 then (j', decreasingHint)
         else (j', unknownHint))"

function reverse_loop :: "'a list \<Rightarrow> nat \<Rightarrow> nat \<Rightarrow> 'a list" where
  "reverse_loop xs i j = (if i < j then reverse_loop (swap xs i j) (i + 1) (j - 1) else xs)"
  by pat_completeness auto
termination
  by (relation "measure (\<lambda>(xs, i, j). j - i)") auto

declare reverse_loop.simps [simp del]

definition reverseRangeLessFunc :: "'a list \<Rightarrow> nat \<Rightarrow> nat \<Rightarrow> 'a list" where
  "reverseRangeLessFunc xs a b = reverse_loop xs a (b - 1)"

subsection \<open>The main loop\<close>

lemma scan_up_le: "i \<le> j + 1 \<Longrightarrow> scan_up lt xs a i j \<le> j + 1"
proof (induction lt xs a i j rule: scan_up.induct)
  case (1 lt xs a i j)
  then show ?case
    by (subst scan_up.simps) auto
qed

lemma scan_up_stop: "scan_up lt xs a i j \<le> j \<Longrightarrow> \<not> lt (xs ! scan_up lt xs a i j) (xs ! a)"
proof (induction lt xs a i j rule: scan_up.induct)
  case (1 lt xs a i j)
  show ?case
  proof (cases "i \<le> j \<and> lt (xs ! i) (xs ! a)")
    case True
    then have eq: "scan_up lt xs a i j = scan_up lt xs a (i + 1) j"
      by (subst scan_up.simps) simp
    show ?thesis
      using 1 True unfolding eq by simp
  next
    case False
    then have eq: "scan_up lt xs a i j = i"
      by (subst scan_up.simps) auto
    show ?thesis
      using 1(2) False unfolding eq by simp
  qed
qed

lemma scan_down_ge: "i \<le> j + 1 \<Longrightarrow> i \<le> scan_down lt xs a i j + 1"
proof (induction lt xs a i j rule: scan_down.induct)
  case (1 lt xs a i j)
  then show ?case
    by (subst scan_down.simps) auto
qed

lemma scan_down_stop:
  "0 < i \<Longrightarrow> i \<le> scan_down lt xs a i j \<Longrightarrow> lt (xs ! scan_down lt xs a i j) (xs ! a)"
proof (induction lt xs a i j rule: scan_down.induct)
  case (1 lt xs a i j)
  show ?case
  proof (cases "0 < j \<and> i \<le> j \<and> \<not> lt (xs ! j) (xs ! a)")
    case True
    then have eq: "scan_down lt xs a i j = scan_down lt xs a i (j - 1)"
      by (subst scan_down.simps) simp
    show ?thesis
      using 1 True unfolding eq by simp
  next
    case False
    then have eq: "scan_down lt xs a i j = j"
      by (subst scan_down.simps) auto
    show ?thesis
      using 1(2,3) False unfolding eq by auto
  qed
qed

lemma partition_loop_ge:
  "0 < i \<Longrightarrow> i \<le> j + 1 \<Longrightarrow> i \<le> snd (partition_loop lt xs a i j) + 1"
proof (induction lt xs a i j rule: partition_loop.induct)
  case (1 lt xs a i j)
  define i1 where "i1 = scan_up lt xs a i j"
  define j1 where "j1 = scan_down lt xs a i1 j"
  have i1: "i \<le> i1" "i1 \<le> j + 1"
    unfolding i1_def using scan_up_ge scan_up_le 1(3) by auto
  have j1: "i1 \<le> j1 + 1" "j1 \<le> j"
    unfolding j1_def using scan_down_ge [OF i1(2)] scan_down_le by auto
  show ?case
  proof (cases "i1 > j1")
    case True
    then show ?thesis
      using i1 j1
      by (subst partition_loop.simps) (simp add: Let_def i1_def [symmetric] j1_def [symmetric])
  next
    case False
    have "i1 \<noteq> j1"
    proof
      assume eq: "i1 = j1"
      have "i1 \<le> j" "0 < i1" "i1 \<le> j1"
        using eq j1(2) i1(1) 1(2) by simp_all
      then have "\<not> lt (xs ! i1) (xs ! a)" "lt (xs ! j1) (xs ! a)"
        using scan_up_stop [of lt xs a i j, folded i1_def]
          scan_down_stop [of i1 lt xs a j, folded j1_def] by blast+
      moreover note eq
      ultimately show False
        using eq by simp
    qed
    with False have lt: "i1 < j1"
      by simp
    have "i1 + 1 \<le> snd (partition_loop lt (swap xs i1 j1) a (i1 + 1) (j1 - 1)) + 1"
      using 1(1) [OF i1_def j1_def] False lt by simp
    then show ?thesis
      using i1 False
      by (subst partition_loop.simps) (simp add: Let_def i1_def [symmetric] j1_def [symmetric])
  qed
qed

lemma partition_loop_le: "snd (partition_loop lt xs a i j) \<le> j"
proof (induction lt xs a i j rule: partition_loop.induct)
  case (1 lt xs a i j)
  define i1 where "i1 = scan_up lt xs a i j"
  define j1 where "j1 = scan_down lt xs a i1 j"
  have le: "j1 \<le> j"
    unfolding j1_def by (rule scan_down_le)
  show ?case
  proof (cases "i1 > j1")
    case True
    then show ?thesis
      using le by (subst partition_loop.simps) (simp add: Let_def i1_def [symmetric] j1_def [symmetric])
  next
    case False
    then have "snd (partition_loop lt (swap xs i1 j1) a (i1 + 1) (j1 - 1)) \<le> j1 - 1"
      using 1 [OF i1_def j1_def] by simp
    then show ?thesis
      using le False
      by (subst partition_loop.simps) (simp add: Let_def i1_def [symmetric] j1_def [symmetric])
  qed
qed

lemma partitionLessFunc_mid:
  assumes "a < b"
  shows "a \<le> fst (snd (partitionLessFunc lt xs a b pivot))"
    and "fst (snd (partitionLessFunc lt xs a b pivot)) < b"
proof -
  define xs1 where "xs1 = swap xs a pivot"
  define i where "i = scan_up lt xs1 a (a + 1) (b - 1)"
  define j where "j = scan_down lt xs1 a i (b - 1)"
  define r where "r = partition_loop lt (swap xs1 i j) a (i + 1) (j - 1)"
  have i: "a + 1 \<le> i" "i \<le> b - 1 + 1"
    unfolding i_def using scan_up_ge scan_up_le [of "a + 1" "b - 1"] assms by auto
  have j: "j \<le> b - 1" "i \<le> j + 1"
    unfolding j_def using scan_down_le scan_down_ge [OF i(2)] by auto
  have r: "snd r \<le> j - 1"
    unfolding r_def by (rule partition_loop_le)
  have r': "i + 1 \<le> snd r + 1" if "i < j"
    unfolding r_def using partition_loop_ge [of "i + 1" "j - 1" lt "swap xs1 i j" a] that by simp
  have ne: "i \<noteq> j"
  proof
    assume eq: "i = j"
    have "i \<le> b - 1" "0 < i" "i \<le> j"
      using eq j(1) i(1) by simp_all
    then have "\<not> lt (xs1 ! i) (xs1 ! a)" "lt (xs1 ! j) (xs1 ! a)"
      using scan_up_stop [of lt xs1 a "a + 1" "b - 1", folded i_def]
        scan_down_stop [of i lt xs1 a "b - 1", folded j_def] by blast+
    moreover note eq
    ultimately show False
      using eq by simp
  qed
  have eq: "partitionLessFunc lt xs a b pivot =
      (if i > j then (swap xs1 j a, j, True) else (swap (fst r) (snd r) a, snd r, False))"
    unfolding partitionLessFunc_def xs1_def i_def j_def r_def
    by (simp add: Let_def split: prod.splits)
  show "a \<le> fst (snd (partitionLessFunc lt xs a b pivot))"
    unfolding eq using i j r' ne by (cases "i < j") auto
  show "fst (snd (partitionLessFunc lt xs a b pivot)) < b"
    unfolding eq using j r assms by auto
qed

lemma partitionLessFunc_midD:
  "(xs', mid, ap) = partitionLessFunc lt xs a b pivot \<Longrightarrow> a < b \<Longrightarrow> a \<le> mid \<and> mid < b"
  using partitionLessFunc_mid [of a b lt xs pivot] by (metis fst_conv snd_conv)

lemma partition_eq_loop_ge: "i \<le> snd (partition_eq_loop lt xs a i j)"
proof (induction lt xs a i j rule: partition_eq_loop.induct)
  case (1 lt xs a i j)
  define i1 where "i1 = scan_up_eq lt xs a i j"
  define j1 where "j1 = scan_down_eq lt xs a i1 j"
  have ge: "i \<le> i1"
    unfolding i1_def by (rule scan_up_eq_ge)
  show ?case
  proof (cases "i1 > j1")
    case True
    then show ?thesis
      using ge
      by (subst partition_eq_loop.simps) (simp add: Let_def i1_def [symmetric] j1_def [symmetric])
  next
    case False
    then have "i1 + 1 \<le> snd (partition_eq_loop lt (swap xs i1 j1) a (i1 + 1) (j1 - 1))"
      using 1 [OF i1_def j1_def] by simp
    then show ?thesis
      using ge False
      by (subst partition_eq_loop.simps) (simp add: Let_def i1_def [symmetric] j1_def [symmetric])
  qed
qed

lemma partitionEqualLessFunc_mid: "a < snd (partitionEqualLessFunc lt xs a b pivot)"
  unfolding partitionEqualLessFunc_def
  using partition_eq_loop_ge [of "a + 1" lt "swap xs a pivot" a "b - 1"] by simp

lemma partitionEqualLessFunc_midD:
  "(xs', mid) = partitionEqualLessFunc lt xs a b pivot \<Longrightarrow> a < mid"
  using partitionEqualLessFunc_mid [of a lt xs b pivot] by (metis snd_conv)

text \<open>
  The first half of a round of \<^verbatim>\<open>pdqsortLessFunc\<close>, up to the partial insertion
  sort: the slice, the limit, the pivot and whether the range is isSorted already.
\<close>

definition pdq_prepare ::
  "('a \<Rightarrow> 'a \<Rightarrow> bool) \<Rightarrow> 'a list \<Rightarrow> nat \<Rightarrow> nat \<Rightarrow> nat \<Rightarrow> bool \<Rightarrow> bool
     \<Rightarrow> 'a list \<times> nat \<times> nat \<times> bool" where
  "pdq_prepare lt xs a b limit wasBalanced wasPartitioned =
     (let xs1 = (if \<not> wasBalanced then breakPatternsLessFunc xs a b else xs);
          limit1 = (if \<not> wasBalanced then limit - 1 else limit);
          (pivot0, hint0) = choosePivotLessFunc lt xs1 a b;
          xs2 = (if hint0 = decreasingHint then reverseRangeLessFunc xs1 a b else xs1);
          pivot = (if hint0 = decreasingHint then (b - 1) - (pivot0 - a) else pivot0);
          hint = (if hint0 = decreasingHint then increasingHint else hint0);
          (xs3, isSorted) =
            (if wasBalanced \<and> wasPartitioned \<and> hint = increasingHint
             then partialInsertionSortLessFunc lt xs2 a b
             else (xs2, False))
      in (xs3, limit1, pivot, isSorted))"

function pdqsortLessFunc ::
  "('a \<Rightarrow> 'a \<Rightarrow> bool) \<Rightarrow> 'a list \<Rightarrow> nat \<Rightarrow> nat \<Rightarrow> nat \<Rightarrow> bool \<Rightarrow> bool \<Rightarrow> 'a list" where
  "pdqsortLessFunc lt xs a b limit wasBalanced wasPartitioned =
     (if b - a \<le> 12 then insertionSortLessFunc lt xs a b
      else if limit = 0 then heapSortLessFunc lt xs a b
      else
        case pdq_prepare lt xs a b limit wasBalanced wasPartitioned of
          (xs3, limit1, pivot, isSorted) \<Rightarrow>
        if isSorted then xs3
        else if a > 0 \<and> \<not> lt (xs3 ! (a - 1)) (xs3 ! pivot) then
          case partitionEqualLessFunc lt xs3 a b pivot of
            (xs4, mid) \<Rightarrow> pdqsortLessFunc lt xs4 mid b limit1 wasBalanced wasPartitioned
        else
          case partitionLessFunc lt xs3 a b pivot of
            (xs4, mid, alreadyPartitioned) \<Rightarrow>
          if mid - a < b - mid
          then pdqsortLessFunc lt (pdqsortLessFunc lt xs4 a mid limit1 True True)
                 (mid + 1) b limit1 (mid - a \<ge> (b - a) div 8) alreadyPartitioned
          else pdqsortLessFunc lt (pdqsortLessFunc lt xs4 (mid + 1) b limit1 True True)
                 a mid limit1 (b - mid \<ge> (b - a) div 8) alreadyPartitioned)"
  by pat_completeness auto
termination
proof (relation "measure (\<lambda>(lt, xs, a, b, limit, wb, wp). b - a)", goal_cases)
  case 1
  show ?case by simp
next
  case 2
  then show ?case
    by (auto dest!: partitionEqualLessFunc_midD)
next
  case 3
  then show ?case
    by (auto dest!: partitionLessFunc_midD)
next
  case 4
  then show ?case
    by (auto dest!: partitionLessFunc_midD)
next
  case 5
  then show ?case
    by (auto dest!: partitionLessFunc_midD)
next
  case 6
  then show ?case
    by (auto dest!: partitionLessFunc_midD)
qed

declare pdqsortLessFunc.simps [simp del]

text \<open>\<^verbatim>\<open>sort.Slice(x, less)\<close>.\<close>

definition go_sort_Slice :: "('a \<Rightarrow> 'a \<Rightarrow> bool) \<Rightarrow> 'a list \<Rightarrow> 'a list" where
  "go_sort_Slice lt xs =
     pdqsortLessFunc lt xs 0 (length xs) (bits_Len (length xs)) True True"

section \<open>Runtimes and the contract of sort.Slice\<close>

text \<open>
  What the documentation of \<^verbatim>\<open>sort.Slice\<close> asks of the comparison (it is
  transitive, and so is "neither is less"; nothing is less than itself) and what
  it promises then: the slice holds the same elements, none before a smaller one.
  It does not promise to keep equal elements in their order.
\<close>

definition strict_weak_order :: "('a \<Rightarrow> 'a \<Rightarrow> bool) \<Rightarrow> bool" where
  "strict_weak_order lt \<longleftrightarrow>
     (\<forall>x. \<not> lt x x) \<and> (\<forall>x y z. lt x y \<longrightarrow> lt y z \<longrightarrow> lt x z)
     \<and> (\<forall>x y z. \<not> lt x y \<longrightarrow> \<not> lt y z \<longrightarrow> \<not> lt x z)"

definition sort_contract :: "(('a \<Rightarrow> 'a \<Rightarrow> bool) \<Rightarrow> 'a list \<Rightarrow> 'a list) \<Rightarrow> bool" where
  "sort_contract srt \<longleftrightarrow>
     (\<forall>lt xs. strict_weak_order lt \<longrightarrow>
        mset (srt lt xs) = mset xs \<and> sorted_wrt (\<lambda>x y. \<not> lt y x) (srt lt xs))"

text \<open>
  A runtime on which every output operation succeeds: the zip containers it can
  open are given and \<^verbatim>\<open>sort.Slice\<close> is Go's.  The Unicode tables are not
  part of it: \<open>unicode_lower\<close>, which \<^verbatim>\<open>strings.ToLower\<close> consults only for a
  string with a byte of 0x80 or more, is a stand-in that lowers the ASCII letters
  and is not what Go does for such a string.  The containers of \<open>sample_fs\<close> have
  ASCII names only, so nothing that is evaluated on this runtime reaches it.
\<close>

definition go_runtime :: "(string \<Rightarrow> error + zip_file list) \<Rightarrow> runtime" where
  "go_runtime fs =
     \<lparr>unicode_lower = map lower_byte,
      sort_Slice = go_sort_Slice,
      OpenReader = fs,
      os_Create = (\<lambda>path. None),
      zip_Create = (\<lambda>w name. None),
      zip_Write = (\<lambda>w data. None),
      GenerateUUID = ''123e4567-e89b-42d3-a456-426614174000'',
      today = ''2024-05-17''\<rparr>"

text \<open>
  Go's insertion sort over the whole slice: what \<^verbatim>\<open>sort.Slice\<close> does on a slice
  of at most twelve elements.
\<close>

definition go_insertion_sort :: "('a \<Rightarrow> 'a \<Rightarrow> bool) \<Rightarrow> 'a list \<Rightarrow> 'a list" where
  "go_insertion_sort lt xs = insertionSortLessFunc lt xs 0 (length xs)"

text \<open>Some containers for the examples.\<close>

definition file_entry :: "string \<Rightarrow> bytes \<Rightarrow> zip_file" where
  "file_entry name data = \<lparr>zf_Name = name, zf_IsDir = False, zf_Body = Body data\<rparr>"

definition dir_entry :: "string \<Rightarrow> zip_file" where
  "dir_entry name = \<lparr>zf_Name = name, zf_IsDir = True, zf_Body = Body []\<rparr>"

definition sample_fs :: "string \<Rightarrow> error + zip_file list" where
  "sample_fs path =
     (if path = ''test.cbz'' then
        Inr [file_entry ''image1.jpg'' ''A'', file_entry ''image2.png'' ''B'',
             file_entry ''notes.txt'' ''to do'']
      else if path = ''A.cbz'' then
        Inr [file_entry ''image1.jpg'' ''a1'', file_entry ''image2.png'' ''a2'']
      else if path = ''B.cbz'' then
        Inr [file_entry ''image1.jpg'' ''b1'', file_entry ''image3.gif'' ''b2'']
      else if path = ''empty.cbz'' then
        Inr [dir_entry ''scans/'', file_entry ''scans/notes.txt'' ''nothing yet'']
      else if path = ''shelf.cbz'' then
        Inr [file_entry ''c01/page.jpg'' ''01'', file_entry ''c02/page.jpg'' ''02'',
             file_entry ''c03/page.jpg'' ''03'', file_entry ''c04/page.jpg'' ''04'',
             file_entry ''c05/page.jpg'' ''05'', file_entry ''c06/page.jpg'' ''06'',
             file_entry ''c07/page.jpg'' ''07'', file_entry ''c08/page.jpg'' ''08'',
             file_entry ''c09/page.jpg'' ''09'', file_entry ''c10/page.jpg'' ''10'',
             file_entry ''c11/page.jpg'' ''11'', file_entry ''c12/page.jpg'' ''12'',
             file_entry ''cover.jpg'' ''cover'']
      else Inl (LibError (''open '' @ path @ '': no such file or directory'')))"

text \<open>The same runtime with the insertion sort for \<^verbatim>\<open>sort.Slice\<close>.\<close>

definition insertion_runtime :: "(string \<Rightarrow> error + zip_file list) \<Rightarrow> runtime" where
  "insertion_runtime fs = (go_runtime fs)\<lparr>sort_Slice := go_insertion_sort\<rparr>"


section \<open>Facts about the library functions\<close>

subsection \<open>Extensions and base names\<close>

lemma ext_loop_shape: "ext_loop r suf = [] \<or> (\<exists>t. ext_loop r suf = CHR ''.'' # t)"
  by (induction r arbitrary: suf) auto

lemma Ext_shape: "Ext p = [] \<or> (\<exists>t. Ext p = CHR ''.'' # t)"
  unfolding Ext_def by (rule ext_loop_shape)

lemma ext_loop_takeWhile:
  "ext_loop (takeWhile (\<lambda>c. c \<noteq> CHR ''/'') r) suf = ext_loop r suf"
  by (induction r arbitrary: suf) auto

lemma Ext_Base:
  assumes "Ext p \<noteq> []"
  shows "Ext (Base p) = Ext p"
proof -
  from assms obtain c r where rp: "rev p = c # r" and c: "c \<noteq> CHR ''/''"
    unfolding Ext_def by (cases "rev p") (auto split: if_splits)
  then have p: "p \<noteq> []"
    by auto
  have "Base p = rev (takeWhile (\<lambda>c. c \<noteq> CHR ''/'') (rev p))"
    unfolding Base_def using p rp c by (simp add: Let_def)
  then show ?thesis
    unfolding Ext_def by (simp add: ext_loop_takeWhile)
qed

subsection \<open>Decimal numbers\<close>

definition is_digit :: "char \<Rightarrow> bool" where
  "is_digit c \<longleftrightarrow> CHR ''0'' \<le> c \<and> c \<le> CHR ''9''"

definition digit_val :: "char \<Rightarrow> nat" where
  "digit_val c = of_char c - 48"

definition val :: "string \<Rightarrow> nat" where
  "val s = foldl (\<lambda>a c. 10 * a + digit_val c) 0 s"

lemma digit_val_digit: "d < 10 \<Longrightarrow> digit_val (digit d) = d"
  by (simp add: digit_val_def digit_def)

lemma is_digit_digit: "d < 10 \<Longrightarrow> is_digit (digit d)"
  by (simp add: is_digit_def digit_def less_eq_char_def)

lemma dec_digits: "list_all is_digit (dec n)"
proof (induction n rule: dec.induct)
  case (1 n)
  then show ?case
    by (subst dec.simps) (auto simp: is_digit_digit)
qed

lemma val_snoc: "val (s @ [c]) = 10 * val s + digit_val c"
  by (simp add: val_def)

lemma val_dec: "val (dec n) = n"
proof (induction n rule: dec.induct)
  case (1 n)
  show ?case
  proof (cases "n < 10")
    case True
    then show ?thesis
      by (subst dec.simps) (simp add: val_def digit_val_digit)
  next
    case False
    then have "val (dec n) = 10 * val (dec (n div 10)) + digit_val (digit (n mod 10))"
      by (subst dec.simps) (simp add: val_snoc)
    with 1 False show ?thesis
      by (simp add: digit_val_digit)
  qed
qed

lemma val_zeros: "val (replicate k CHR ''0'' @ s) = val s"
proof -
  have "foldl (\<lambda>a c. 10 * a + digit_val c) 0 (replicate k CHR ''0'') = 0"
    by (induction k) (simp_all add: digit_val_def)
  then show ?thesis
    by (simp add: val_def)
qed

lemma val_pad3: "val (pad3 n) = n"
  by (simp add: pad3_def val_zeros val_dec)

lemma pad3_inj: "pad3 m = pad3 n \<Longrightarrow> m = n"
  by (metis val_pad3)

lemma dec_inj: "dec m = dec n \<Longrightarrow> m = n"
  by (metis val_dec)

lemma pad3_digits: "list_all is_digit (pad3 n)"
proof -
  have "is_digit CHR ''0''"
    by (simp add: is_digit_def less_eq_char_def)
  then show ?thesis
    using dec_digits [of n] by (auto simp: pad3_def list_all_iff)
qed

lemma digits_then_other:
  assumes "list_all is_digit u" "list_all is_digit v"
    and "r = [] \<or> \<not> is_digit (hd r)" "s = [] \<or> \<not> is_digit (hd s)"
    and "u @ r = v @ s"
  shows "u = v \<and> r = s"
proof -
  have "takeWhile is_digit (u @ r) = u" "takeWhile is_digit (v @ s) = v"
    using assms(1-4) by (cases r; cases s; auto simp: list_all_iff takeWhile_append2 takeWhile_tail)+
  with assms(5) show ?thesis
    by (metis same_append_eq)
qed


section \<open>Go's insertion sort meets the contract\<close>

subsection \<open>Ranges of a slice\<close>

definition sorted_rng :: "('a \<Rightarrow> 'a \<Rightarrow> bool) \<Rightarrow> 'a list \<Rightarrow> nat \<Rightarrow> nat \<Rightarrow> bool" where
  "sorted_rng lt xs a b \<longleftrightarrow> (\<forall>p q. a \<le> p \<and> p < q \<and> q < b \<longrightarrow> \<not> lt (xs ! q) (xs ! p))"

definition range_perm :: "nat \<Rightarrow> nat \<Rightarrow> 'a list \<Rightarrow> 'a list \<Rightarrow> bool" where
  "range_perm a b xs ys \<longleftrightarrow>
     length ys = length xs \<and> mset ys = mset xs
     \<and> (\<forall>k<length xs. k < a \<or> b \<le> k \<longrightarrow> ys ! k = xs ! k)"

lemma range_perm_refl [simp]: "range_perm a b xs xs"
  by (simp add: range_perm_def)

lemma range_perm_trans:
  "range_perm a b xs ys \<Longrightarrow> range_perm a b ys zs \<Longrightarrow> range_perm a b xs zs"
  by (simp add: range_perm_def)

lemma range_perm_mono:
  "range_perm a b xs ys \<Longrightarrow> a' \<le> a \<Longrightarrow> b \<le> b' \<Longrightarrow> range_perm a' b' xs ys"
  by (auto simp: range_perm_def)

lemma length_swap [simp]: "length (swap xs i j) = length xs"
  by (simp add: swap_def)

lemma nth_swap:
  "i < length xs \<Longrightarrow> j < length xs \<Longrightarrow> k < length xs \<Longrightarrow>
   swap xs i j ! k = (if k = j then xs ! i else if k = i then xs ! j else xs ! k)"
  by (simp add: swap_def nth_list_update)

lemma mset_swap_list: "i < length xs \<Longrightarrow> j < length xs \<Longrightarrow> mset (swap xs i j) = mset xs"
  unfolding swap_def by (simp add: mset_swap)

lemma range_perm_swap:
  "a \<le> i \<Longrightarrow> i < b \<Longrightarrow> a \<le> j \<Longrightarrow> j < b \<Longrightarrow> b \<le> length xs \<Longrightarrow> range_perm a b xs (swap xs i j)"
  by (auto simp: range_perm_def mset_swap_list nth_swap)

lemma swo_asym: "strict_weak_order lt \<Longrightarrow> lt x y \<Longrightarrow> \<not> lt y x"
  unfolding strict_weak_order_def by blast

lemma swo_le_trans: "strict_weak_order lt \<Longrightarrow> \<not> lt y x \<Longrightarrow> \<not> lt z y \<Longrightarrow> \<not> lt z x"
  unfolding strict_weak_order_def by blast

subsection \<open>Insertion sort\<close>

lemma insert_down_spec:
  assumes "strict_weak_order lt"
    and "a \<le> j" "j \<le> i" "i < length xs"
    and "\<forall>p q. a \<le> p \<and> p < q \<and> q \<le> i \<and> q \<noteq> j \<longrightarrow> \<not> lt (xs ! q) (xs ! p)"
  shows "range_perm a (i + 1) xs (insert_down lt xs a j)
         \<and> sorted_rng lt (insert_down lt xs a j) a (i + 1)"
  using assms
proof (induction lt xs a j rule: insert_down.induct)
  case (1 lt xs a j)
  note swo = \<open>strict_weak_order lt\<close>
  show ?case
  proof (cases "a < j \<and> lt (xs ! j) (xs ! (j - 1))")
    case True
    let ?ys = "swap xs j (j - 1)"
    have eq: "insert_down lt xs a j = insert_down lt ?ys a (j - 1)"
      using True by (subst insert_down.simps) simp
    have len: "j < length xs" "j - 1 < length xs"
      using 1(4,5) by auto
    have inv: "\<forall>p q. a \<le> p \<and> p < q \<and> q \<le> i \<and> q \<noteq> j - 1 \<longrightarrow> \<not> lt (?ys ! q) (?ys ! p)"
    proof (intro allI impI)
      fix p q
      assume pq: "a \<le> p \<and> p < q \<and> q \<le> i \<and> q \<noteq> j - 1"
      then have lens: "p < length xs" "q < length xs"
        using 1(5) by auto
      have old: "\<And>p q. a \<le> p \<Longrightarrow> p < q \<Longrightarrow> q \<le> i \<Longrightarrow> q \<noteq> j \<Longrightarrow> \<not> lt (xs ! q) (xs ! p)"
        using 1(6) by blast
      consider "q = j" "p = j - 1" | "q = j" "p < j - 1" | "q > j" "p = j" | "q > j" "p = j - 1"
        | "q \<noteq> j" "p \<noteq> j" "p \<noteq> j - 1"
        using pq True by linarith
      then show "\<not> lt (?ys ! q) (?ys ! p)"
      proof cases
        case 1
        then show ?thesis
          using True len swo_asym [OF swo] by (auto simp: nth_swap)
      next
        case 2
        have "\<not> lt (xs ! (j - 1)) (xs ! p)"
          by (rule old) (use 2 pq True in auto)
        then show ?thesis
          using 2 True len lens by (auto simp: nth_swap)
      next
        case 3
        have "\<not> lt (xs ! q) (xs ! (j - 1))"
          by (rule old) (use 3 pq True in auto)
        then show ?thesis
          using 3 True len lens by (auto simp: nth_swap)
      next
        case 4
        have "\<not> lt (xs ! q) (xs ! j)"
          by (rule old) (use 4 pq True in auto)
        then show ?thesis
          using 4 True len lens by (auto simp: nth_swap)
      next
        case 5
        have "\<not> lt (xs ! q) (xs ! p)"
          by (rule old) (use 5 pq True in auto)
        then show ?thesis
          using 5 pq True len lens by (auto simp: nth_swap)
      qed
    qed
    have IH: "range_perm a (i + 1) ?ys (insert_down lt ?ys a (j - 1))
         \<and> sorted_rng lt (insert_down lt ?ys a (j - 1)) a (i + 1)"
    proof (rule 1(1) [OF True swo])
      show "a \<le> j - 1" "j - 1 \<le> i" "i < length ?ys"
        using True 1(4,5) by auto
      show "\<forall>p q. a \<le> p \<and> p < q \<and> q \<le> i \<and> q \<noteq> j - 1 \<longrightarrow> \<not> lt (?ys ! q) (?ys ! p)"
        by (rule inv)
    qed
    have "range_perm a (i + 1) xs ?ys"
      using True 1(4,5) by (intro range_perm_swap) auto
    with IH show ?thesis
      unfolding eq by (blast intro: range_perm_trans)
  next
    case False
    have eq: "insert_down lt xs a j = xs"
      using False by (subst insert_down.simps) auto
    have "sorted_rng lt xs a (i + 1)"
      unfolding sorted_rng_def
    proof (intro allI impI)
      fix p q
      assume pq: "a \<le> p \<and> p < q \<and> q < i + 1"
      show "\<not> lt (xs ! q) (xs ! p)"
      proof (cases "q = j")
        case qj: True
        with pq False have nlt: "\<not> lt (xs ! j) (xs ! (j - 1))"
          by auto
        show ?thesis
        proof (cases "p = j - 1")
          case True
          with nlt qj show ?thesis by simp
        next
          case False
          with pq qj have "a \<le> p \<and> p < j - 1 \<and> j - 1 \<le> i \<and> j - 1 \<noteq> j"
            by auto
          then have "\<not> lt (xs ! (j - 1)) (xs ! p)"
            using 1(6) by blast
          with nlt qj show ?thesis
            using swo_le_trans [OF swo] by blast
        qed
      next
        case False
        with pq show ?thesis
          using 1(6) by auto
      qed
    qed
    then show ?thesis
      unfolding eq by simp
  qed
qed


lemma insertion_loop_spec:
  assumes "strict_weak_order lt"
    and "a < i" "i \<le> b" "b \<le> length xs" "sorted_rng lt xs a i"
  shows "range_perm a b xs (insertion_loop lt xs a i b)
         \<and> sorted_rng lt (insertion_loop lt xs a i b) a b"
  using assms
proof (induction lt xs a i b rule: insertion_loop.induct)
  case (1 lt xs a i b)
  note swo = \<open>strict_weak_order lt\<close>
  show ?case
  proof (cases "i < b")
    case True
    let ?ys = "insert_down lt xs a i"
    have eq: "insertion_loop lt xs a i b = insertion_loop lt ?ys a (i + 1) b"
      using True by (subst insertion_loop.simps) simp
    have step: "range_perm a (i + 1) xs ?ys \<and> sorted_rng lt ?ys a (i + 1)"
    proof (rule insert_down_spec [OF swo])
      show "a \<le> i" "i \<le> i" "i < length xs"
        using 1(3,5) True by auto
      show "\<forall>p q. a \<le> p \<and> p < q \<and> q \<le> i \<and> q \<noteq> i \<longrightarrow> \<not> lt (xs ! q) (xs ! p)"
        using 1(6) by (auto simp: sorted_rng_def)
    qed
    then have len: "length ?ys = length xs"
      by (simp add: range_perm_def)
    have "range_perm a b ?ys (insertion_loop lt ?ys a (i + 1) b)
         \<and> sorted_rng lt (insertion_loop lt ?ys a (i + 1) b) a b"
    proof (rule 1(1) [OF True swo])
      show "a < i + 1" "i + 1 \<le> b" "b \<le> length ?ys"
        using 1(3,5) True len by auto
      show "sorted_rng lt ?ys a (i + 1)"
        using step by simp
    qed
    moreover have "range_perm a b xs ?ys"
      using step True by (auto intro: range_perm_mono)
    ultimately show ?thesis
      unfolding eq by (blast intro: range_perm_trans)
  next
    case False
    have eq: "insertion_loop lt xs a i b = xs"
      using False by (subst insertion_loop.simps) simp
    from False 1(4) have "i = b"
      by simp
    with 1(6) show ?thesis
      unfolding eq by simp
  qed
qed

lemma insertionSortLessFunc_spec:
  assumes "strict_weak_order lt" and "b \<le> length xs"
  shows "range_perm a b xs (insertionSortLessFunc lt xs a b)
         \<and> sorted_rng lt (insertionSortLessFunc lt xs a b) a b"
proof (cases "a < b")
  case True
  show ?thesis
    unfolding insertionSortLessFunc_def
  proof (rule insertion_loop_spec [OF assms(1)])
    show "a < a + 1" "a + 1 \<le> b" "b \<le> length xs"
      using True assms(2) by auto
    show "sorted_rng lt xs a (a + 1)"
      by (auto simp: sorted_rng_def)
  qed
next
  case False
  then have "insertionSortLessFunc lt xs a b = xs"
    unfolding insertionSortLessFunc_def by (subst insertion_loop.simps) simp
  with False show ?thesis
    by (auto simp: sorted_rng_def)
qed

lemma sorted_rng_whole:
  "sorted_rng lt xs 0 (length xs) \<Longrightarrow> sorted_wrt (\<lambda>x y. \<not> lt y x) xs"
  by (auto simp: sorted_rng_def sorted_wrt_iff_nth_less)


section \<open>Facts about ConvertFromCBZ\<close>

subsection \<open>Steps that succeed\<close>

definition io_ok :: "runtime \<Rightarrow> bool" where
  "io_ok rt \<longleftrightarrow>
     (\<forall>p. os_Create rt p = None) \<and> (\<forall>w n. zip_Create rt w n = None)
     \<and> (\<forall>w d. zip_Write rt w d = None)"

definition entry :: "string \<Rightarrow> zip_method \<Rightarrow> bytes \<Rightarrow> zip_entry" where
  "entry name m data = \<lparr>e_Name = name, e_Method = m, e_Data = data\<rparr>"

lemma run_Nil_None: "run [] s = (s', None) \<Longrightarrow> s' = s"
  by simp

lemma run_Cons_None:
  "run (f # fs) s = (s', None) \<Longrightarrow> \<exists>s1. f s = (s1, None) \<and> run fs s1 = (s', None)"
  by (auto split: prod.splits option.splits)

lemma assign_None: "assign f s = (s', None) \<Longrightarrow> s' = f s"
  by (simp add: assign_def)

lemma create_entry_None:
  "create_entry rt msg m name s = (s', None) \<Longrightarrow> s' = s\<lparr>zw := zw s @ [entry name m []]\<rparr>"
  by (auto simp: create_entry_def zw_Create_def entry_def split: option.splits)

lemma write_entry_None:
  "write_entry rt msg data s = (s', None) \<Longrightarrow>
   s' = s\<lparr>zw := butlast (zw s) @ [(last (zw s))\<lparr>e_Data := e_Data (last (zw s)) @ data\<rparr>]\<rparr>"
  by (auto simp: write_entry_def zw_Write_def split: option.splits)

lemma create_write_None:
  assumes "create_entry rt msg1 m name s = (s1, None)"
    and "write_entry rt msg2 data s1 = (s2, None)"
  shows "s2 = s\<lparr>zw := zw s @ [entry name m data]\<rparr>"
  using create_entry_None [OF assms(1)] write_entry_None [OF assms(2)]
  by (simp add: entry_def)

lemma create_entry_ok:
  "io_ok rt \<Longrightarrow> create_entry rt msg m name s = (s\<lparr>zw := zw s @ [entry name m []]\<rparr>, None)"
  by (simp add: io_ok_def create_entry_def zw_Create_def entry_def)

lemma write_entry_ok:
  "io_ok rt \<Longrightarrow> write_entry rt msg data s =
     (s\<lparr>zw := butlast (zw s) @ [(last (zw s))\<lparr>e_Data := e_Data (last (zw s)) @ data\<rparr>]\<rparr>, None)"
  by (simp add: io_ok_def write_entry_def zw_Write_def)

subsection \<open>The loops of ConvertFromCBZ\<close>

definition image_name :: "nat \<Rightarrow> Image \<Rightarrow> string" where
  "image_name seq img = ''image'' @ pad3 seq @ Ext (Name img)"

definition page_name :: "nat \<Rightarrow> string" where
  "page_name seq = ''page'' @ pad3 seq @ ''.xhtml''"

definition image_entry :: "nat \<times> Image \<Rightarrow> zip_entry" where
  "image_entry = (\<lambda>(seq, img). entry (''OEBPS/images/'' @ image_name seq img) Deflate (Data img))"

definition page_entry :: "nat \<times> Image \<Rightarrow> zip_entry" where
  "page_entry = (\<lambda>(seq, img).
     entry (''OEBPS/pages/'' @ page_name seq) Deflate (page_xhtml seq (image_name seq img)))"

lemma run4_None:
  "run [f1, f2, f3, f4] s = (s', None) \<Longrightarrow>
   \<exists>s1 s2 s3. f1 s = (s1, None) \<and> f2 s1 = (s2, None) \<and> f3 s2 = (s3, None) \<and> f4 s3 = (s', None)"
  by (auto split: prod.splits option.splits)

lemma add_images_Cons:
  "add_images rt i (img # rest) s =
   run [assign (\<lambda>s. s\<lparr>contentOPF := contentOPF s
           @ image_item (i + 1) (image_name (i + 1) img) (MimeType img)\<rparr>),
        create_entry rt ''failed to create image file'' Deflate
          (''OEBPS/images/'' @ image_name (i + 1) img),
        write_entry rt ''failed to write image data'' (Data img),
        add_images rt (i + 1) rest] s"
  by (simp only: add_images.simps Let_def image_name_def)

lemma add_pages_Cons:
  "add_pages rt i (img # rest) s =
   run [assign (\<lambda>s. s\<lparr>contentOPF := contentOPF s @ page_item (i + 1) (page_name (i + 1))\<rparr>),
        create_entry rt ''failed to create page file'' Deflate
          (''OEBPS/pages/'' @ page_name (i + 1)),
        write_entry rt ''failed to write page content''
          (page_xhtml (i + 1) (image_name (i + 1) img)),
        add_pages rt (i + 1) rest] s"
  by (simp only: add_pages.simps Let_def image_name_def page_name_def)

lemma add_images_None:
  "add_images rt i imgs s = (s', None) \<Longrightarrow>
   s' = s\<lparr>zw := zw s @ map image_entry (enumerate (i + 1) imgs),
          contentOPF := contentOPF s
            @ concat (map (\<lambda>(seq, img). image_item seq (image_name seq img) (MimeType img))
                (enumerate (i + 1) imgs))\<rparr>"
proof (induction imgs arbitrary: i s)
  case Nil
  then show ?case by simp
next
  case (Cons img rest)
  from Cons.prems [unfolded add_images_Cons] obtain s1 s2 s3 where
    a: "assign (\<lambda>s. s\<lparr>contentOPF := contentOPF s
           @ image_item (i + 1) (image_name (i + 1) img) (MimeType img)\<rparr>) s = (s1, None)"
    and c: "create_entry rt ''failed to create image file'' Deflate
             (''OEBPS/images/'' @ image_name (i + 1) img) s1 = (s2, None)"
    and w: "write_entry rt ''failed to write image data'' (Data img) s2 = (s3, None)"
    and r: "add_images rt (i + 1) rest s3 = (s', None)"
    using run4_None by blast
  have "s3 = s1\<lparr>zw := zw s1 @ [entry (''OEBPS/images/'' @ image_name (i + 1) img) Deflate (Data img)]\<rparr>"
    by (rule create_write_None [OF c w])
  with Cons.IH [OF r] assign_None [OF a] show ?case
    by (simp add: image_entry_def)
qed

lemma add_pages_None:
  "add_pages rt i imgs s = (s', None) \<Longrightarrow>
   s' = s\<lparr>zw := zw s @ map page_entry (enumerate (i + 1) imgs),
          contentOPF := contentOPF s
            @ concat (map (\<lambda>(seq, img). page_item seq (page_name seq)) (enumerate (i + 1) imgs))\<rparr>"
proof (induction imgs arbitrary: i s)
  case Nil
  then show ?case by simp
next
  case (Cons img rest)
  from Cons.prems [unfolded add_pages_Cons] obtain s1 s2 s3 where
    a: "assign (\<lambda>s. s\<lparr>contentOPF := contentOPF s @ page_item (i + 1) (page_name (i + 1))\<rparr>) s
          = (s1, None)"
    and c: "create_entry rt ''failed to create page file'' Deflate
             (''OEBPS/pages/'' @ page_name (i + 1)) s1 = (s2, None)"
    and w: "write_entry rt ''failed to write page content''
             (page_xhtml (i + 1) (image_name (i + 1) img)) s2 = (s3, None)"
    and r: "add_pages rt (i + 1) rest s3 = (s', None)"
    using run4_None by blast
  have "s3 = s1\<lparr>zw := zw s1 @ [entry (''OEBPS/pages/'' @ page_name (i + 1)) Deflate
      (page_xhtml (i + 1) (image_name (i + 1) img))]\<rparr>"
    by (rule create_write_None [OF c w])
  with Cons.IH [OF r] assign_None [OF a] show ?case
    by (simp add: page_entry_def)
qed

lemma add_spine_eq:
  "add_spine i imgs s =
   s\<lparr>contentOPF := contentOPF s @ concat (map (\<lambda>(seq, img). itemref seq) (enumerate (i + 1) imgs))\<rparr>"
  by (induction imgs arbitrary: i s) simp_all

lemma add_navMap_eq:
  "add_navMap i imgs s =
   s\<lparr>tocNCX := tocNCX s @ concat (map (\<lambda>(seq, img). navPoint seq) (enumerate (i + 1) imgs))\<rparr>"
  by (induction imgs arbitrary: i s) simp_all

lemma run_ok: "(\<And>f s. f \<in> set fs \<Longrightarrow> snd (f s) = None) \<Longrightarrow> snd (run fs s) = None"
proof (induction fs arbitrary: s)
  case Nil
  then show ?case by simp
next
  case (Cons f fs)
  have "snd (f s) = None"
    using Cons.prems by simp
  then obtain s1 where "f s = (s1, None)"
    by (cases "f s") auto
  moreover have "snd (run fs s1) = None"
    using Cons by simp
  ultimately show ?case
    by simp
qed

lemma step_ok:
  "snd (assign g s) = None"
  "io_ok rt \<Longrightarrow> snd (create_entry rt msg m name s) = None"
  "io_ok rt \<Longrightarrow> snd (write_entry rt msg data s) = None"
  by (simp_all add: assign_def create_entry_ok write_entry_ok)

lemma add_images_ok:
  "io_ok rt \<Longrightarrow> snd (add_images rt i imgs s) = None"
proof (induction imgs arbitrary: i s)
  case Nil
  then show ?case by simp
next
  case (Cons img rest)
  show ?case
    unfolding add_images_Cons using Cons by (intro run_ok) (auto simp: step_ok)
qed

lemma add_pages_ok:
  "io_ok rt \<Longrightarrow> snd (add_pages rt i imgs s) = None"
proof (induction imgs arbitrary: i s)
  case Nil
  then show ?case by simp
next
  case (Cons img rest)
  show ?case
    unfolding add_pages_Cons using Cons by (intro run_ok) (auto simp: step_ok)
qed

definition succeeds_as :: "step \<Rightarrow> (epub_state \<Rightarrow> epub_state) \<Rightarrow> bool" where
  "succeeds_as f g \<longleftrightarrow> (\<forall>s s'. f s = (s', None) \<longrightarrow> s' = g s)"

lemma run_Cons_succ:
  "run (f # fs) s = (s', None) \<Longrightarrow> succeeds_as f g \<Longrightarrow> run fs (g s) = (s', None)"
  using run_Cons_None [of f fs s s'] by (auto simp: succeeds_as_def)

lemma succeeds_as_steps:
  "succeeds_as (assign g) g"
  "succeeds_as (create_entry rt msg m name) (\<lambda>s. s\<lparr>zw := zw s @ [entry name m []]\<rparr>)"
  "succeeds_as (write_entry rt msg data)
     (\<lambda>s. s\<lparr>zw := butlast (zw s) @ [(last (zw s))\<lparr>e_Data := e_Data (last (zw s)) @ data\<rparr>]\<rparr>)"
  "succeeds_as (\<lambda>s. write_entry rt msg (h s) s)
     (\<lambda>s. s\<lparr>zw := butlast (zw s) @ [(last (zw s))\<lparr>e_Data := e_Data (last (zw s)) @ h s\<rparr>]\<rparr>)"
  "succeeds_as (add_images rt i imgs)
     (\<lambda>s. s\<lparr>zw := zw s @ map image_entry (enumerate (i + 1) imgs),
          contentOPF := contentOPF s
            @ concat (map (\<lambda>(seq, img). image_item seq (image_name seq img) (MimeType img))
                (enumerate (i + 1) imgs))\<rparr>)"
  "succeeds_as (add_pages rt i imgs)
     (\<lambda>s. s\<lparr>zw := zw s @ map page_entry (enumerate (i + 1) imgs),
          contentOPF := contentOPF s
            @ concat (map (\<lambda>(seq, img). page_item seq (page_name seq)) (enumerate (i + 1) imgs))\<rparr>)"
  unfolding succeeds_as_def
  by (blast dest: assign_None create_entry_None write_entry_None add_images_None
      add_pages_None)+

definition epub_title :: "File \<Rightarrow> string" where
  "epub_title cbzFile = TrimSuffix (Base (File_Name cbzFile)) ''.cbz''"

definition opf_text :: "runtime \<Rightarrow> File \<Rightarrow> string" where
  "opf_text rt cbzFile =
     opf_header (epub_title cbzFile) (GenerateUUID rt) (today rt)
     @ concat (map (\<lambda>(seq, img). image_item seq (image_name seq img) (MimeType img))
         (enumerate 1 (Images cbzFile)))
     @ concat (map (\<lambda>(seq, img). page_item seq (page_name seq)) (enumerate 1 (Images cbzFile)))
     @ spine_open
     @ concat (map (\<lambda>(seq, img). itemref seq) (enumerate 1 (Images cbzFile)))
     @ spine_close"

definition ncx_text :: "runtime \<Rightarrow> File \<Rightarrow> string" where
  "ncx_text rt cbzFile =
     ncx_header (GenerateUUID rt) (epub_title cbzFile)
     @ concat (map (\<lambda>(seq, img). navPoint seq) (enumerate 1 (Images cbzFile)))
     @ ncx_close"

definition epub_entries :: "runtime \<Rightarrow> File \<Rightarrow> zip_entry list" where
  "epub_entries rt cbzFile =
     [entry ''mimetype'' Store mimetype_bytes,
      entry ''META-INF/container.xml'' Deflate container_xml]
     @ map image_entry (enumerate 1 (Images cbzFile))
     @ map page_entry (enumerate 1 (Images cbzFile))
     @ [entry ''OEBPS/content.opf'' Deflate (opf_text rt cbzFile),
        entry ''OEBPS/toc.ncx'' Deflate (ncx_text rt cbzFile)]"

lemma ConvertFromCBZ_None:
  assumes "ConvertFromCBZ rt cbzFile outputFile = (s, None)"
  shows "s = \<lparr>zw = epub_entries rt cbzFile, contentOPF = opf_text rt cbzFile,
              tocNCX = ncx_text rt cbzFile\<rparr>"
proof -
  have os: "os_Create rt outputFile = None"
  proof (cases "os_Create rt outputFile")
    case None
    then show ?thesis .
  next
    case (Some err)
    with assms show ?thesis
      unfolding ConvertFromCBZ_def Let_def by (simp del: run.simps)
  qed
  note r = assms [unfolded ConvertFromCBZ_def Let_def os option.case]
  show ?thesis
    using r
    apply -
    apply ((drule run_Cons_succ, rule succeeds_as_steps), (simp del: run.simps)?)+
    apply (drule run_Nil_None)
    apply (simp add: epub_entries_def opf_text_def ncx_text_def epub_title_def add_spine_eq
        add_navMap_eq entry_def)
    done
qed

lemma run_all_ok: "list_all (\<lambda>f. \<forall>s. snd (f s) = None) fs \<Longrightarrow> snd (run fs s) = None"
  by (rule run_ok) (simp add: list_all_iff)

lemma ConvertFromCBZ_ok:
  assumes "io_ok rt"
  shows "snd (ConvertFromCBZ rt cbzFile outputFile) = None"
proof -
  have os: "os_Create rt outputFile = None"
    using assms by (simp add: io_ok_def)
  show ?thesis
    unfolding ConvertFromCBZ_def Let_def os option.case
    by (rule run_all_ok)
      (simp add: step_ok(2,3) [OF assms] step_ok(1) add_images_ok [OF assms]
        add_pages_ok [OF assms] del: run.simps)
qed


section \<open>Facts about ReadFile and MergeFiles\<close>

subsection \<open>ReadFile\<close>

definition image_of :: "(string \<Rightarrow> string) \<Rightarrow> zip_file \<Rightarrow> Image" where
  "image_of uni file =
     \<lparr>Name = Base (zf_Name file),
      Data = (case zf_Body file of Body data \<Rightarrow> data | _ \<Rightarrow> []),
      MimeType = getMimeType uni (zf_Name file)\<rparr>"

definition retained :: "(string \<Rightarrow> string) \<Rightarrow> zip_file list \<Rightarrow> zip_file list" where
  "retained uni files = filter (\<lambda>file. \<not> zf_IsDir file \<and> isImageFile uni (zf_Name file)) files"

lemma read_entries_Inr:
  "read_entries uni zfs acc = Inr images \<Longrightarrow>
   images = acc @ map (image_of uni) (retained uni zfs)"
proof (induction zfs arbitrary: acc)
  case Nil
  then show ?case by (simp add: retained_def)
next
  case (Cons zf rest)
  show ?case
  proof (cases "zf_IsDir zf \<or> \<not> isImageFile uni (zf_Name zf)")
    case True
    with Cons show ?thesis
      by (auto simp: retained_def)
  next
    case False
    with Cons.prems obtain data where b: "zf_Body zf = Body data"
      by (cases "zf_Body zf") auto
    with False Cons.prems have
      "read_entries uni rest (acc @ [image_of uni zf]) = Inr images"
      by (simp add: image_of_def)
    from Cons.IH [OF this] False show ?thesis
      by (simp add: retained_def)
  qed
qed

lemma read_entries_no_images:
  "retained uni files = [] \<Longrightarrow> read_entries uni files acc = Inr acc"
  by (induction files arbitrary: acc) (auto simp: retained_def split: if_splits)

lemma ReadFile_Inr:
  assumes "ReadFile rt path = Inr f"
  obtains files where "OpenReader rt path = Inr files"
    and "f = \<lparr>File_Name = path,
               Images = sort_Slice rt name_less
                 (map (image_of (unicode_lower rt)) (retained (unicode_lower rt) files))\<rparr>"
proof -
  from assms obtain files where o: "OpenReader rt path = Inr files"
    unfolding ReadFile_def by (cases "OpenReader rt path") auto
  with assms obtain images where r: "read_entries (unicode_lower rt) files [] = Inr images"
    and f: "f = \<lparr>File_Name = path, Images = sort_Slice rt name_less images\<rparr>"
    unfolding ReadFile_def by (cases "read_entries (unicode_lower rt) files []") auto
  from read_entries_Inr [OF r] f o that show thesis
    by simp
qed

lemma name_less_swo: "strict_weak_order name_less"
  unfolding strict_weak_order_def name_less_def by auto

lemma sort_contract_name:
  assumes "sort_contract srt"
  shows "mset (srt name_less xs) = mset xs" and "sorted (map Name (srt name_less xs))"
proof -
  from assms name_less_swo have
    m: "mset (srt name_less xs) = mset xs"
    and s: "sorted_wrt (\<lambda>x y. \<not> name_less y x) (srt name_less xs)"
    unfolding sort_contract_def by blast+
  show "mset (srt name_less xs) = mset xs"
    by (rule m)
  have "(\<lambda>x y. \<not> name_less y x) = (\<lambda>x y. Name x \<le> Name y)"
    by (auto simp: name_less_def fun_eq_iff)
  with s show "sorted (map Name (srt name_less xs))"
    by (simp add: sorted_map)
qed

lemma ToLower_Nil [simp]: "ToLower uni [] = []"
  by (simp add: ToLower_def)

lemma isImageFile_Ext: "isImageFile uni name \<Longrightarrow> Ext name \<noteq> []"
  by (auto simp: isImageFile_def)

lemma retained_image:
  assumes "file \<in> set (retained uni files)"
  shows "isImageFile uni (Name (image_of uni file))"
    and "MimeType (image_of uni file) = getMimeType uni (Name (image_of uni file))"
proof -
  from assms have i: "isImageFile uni (zf_Name file)"
    by (simp add: retained_def)
  then have e: "Ext (Base (zf_Name file)) = Ext (zf_Name file)"
    by (intro Ext_Base isImageFile_Ext)
  show "isImageFile uni (Name (image_of uni file))"
    using i e by (simp add: image_of_def isImageFile_def)
  show "MimeType (image_of uni file) = getMimeType uni (Name (image_of uni file))"
    using e by (simp add: image_of_def getMimeType_def)
qed

subsection \<open>MergeFiles\<close>

definition merged_entry :: "nat \<Rightarrow> nat \<times> Image \<Rightarrow> zip_entry" where
  "merged_entry c = (\<lambda>(n, img).
     entry (''chapter'' @ pad3 c @ ''_'' @ pad3 n @ Ext (Name img)) Deflate (Data img))"

lemma merge_images_None:
  "merge_images rt c imgs s = (s', None) \<Longrightarrow>
   s' = s\<lparr>written := written s @ map (merged_entry (c + 1)) (enumerate (imageCounter s) imgs),
          imageCounter := imageCounter s + length imgs\<rparr>"
proof (induction imgs arbitrary: s)
  case Nil
  then show ?case by simp
next
  case (Cons img rest)
  let ?name = "''chapter'' @ pad3 (c + 1) @ ''_'' @ pad3 (imageCounter s) @ Ext (Name img)"
  let ?s1 = "s\<lparr>imageCounter := imageCounter s + 1\<rparr>"
  from Cons.prems have c: "zip_Create rt (written s) ?name = None"
    by (auto simp: Let_def zw_Create_def split: option.splits sum.splits)
  let ?w1 = "written s @ [entry ?name Deflate []]"
  from Cons.prems c have w: "zip_Write rt ?w1 (Data img) = None"
    by (auto simp: Let_def zw_Create_def zw_Write_def entry_def split: option.splits sum.splits)
  from Cons.prems c w have
    "merge_images rt c rest (?s1\<lparr>written := written s @ [entry ?name Deflate (Data img)]\<rparr>)
       = (s', None)"
    by (simp add: Let_def zw_Create_def zw_Write_def entry_def)
  from Cons.IH [OF this] show ?case
    by (simp add: merged_entry_def)
qed

text \<open>The entries of a merge: chapter \<open>c + 1\<close> onwards, the counter starting at \<open>n\<close>.\<close>

fun merged :: "nat \<Rightarrow> nat \<Rightarrow> File list \<Rightarrow> zip_entry list" where
  "merged c n [] = []"
| "merged c n (f # fs) =
     map (merged_entry (c + 1)) (enumerate n (Images f))
     @ merged (c + 1) (n + length (Images f)) fs"

definition total :: "File list \<Rightarrow> nat" where
  "total fs = sum_list (map (\<lambda>f. length (Images f)) fs)"

lemma merge_inputs_None:
  assumes "merge_inputs rt c ps s = (s', None)"
    and "list_all2 (\<lambda>p f. ReadFile rt p = Inr f) ps fs"
  shows "s' = s\<lparr>written := written s @ merged c (imageCounter s) fs,
               opened := opened s @ ps,
               imageCounter := imageCounter s + total fs\<rparr>"
  using assms(2,1)
proof (induction ps fs arbitrary: c s rule: list_all2_induct)
  case Nil
  then show ?case by (simp add: total_def)
next
  case (Cons p ps f fs)
  let ?s1 = "s\<lparr>opened := opened s @ [p]\<rparr>"
  from Cons.prems Cons.hyps(1) obtain s2 where
    m: "merge_images rt c (Images f) ?s1 = (s2, None)"
    and r: "merge_inputs rt (c + 1) ps s2 = (s', None)"
    by (auto simp: Let_def split: prod.splits option.splits)
  from merge_images_None [OF m] Cons.IH [OF r] show ?case
    by (simp add: total_def)
qed

lemma merge_inputs_append:
  "merge_inputs rt c ps s = (s1, None) \<Longrightarrow>
   merge_inputs rt c (ps @ qs) s = merge_inputs rt (c + length ps) qs s1"
proof (induction ps arbitrary: c s)
  case Nil
  then show ?case by simp
next
  case (Cons p ps)
  let ?s1 = "s\<lparr>opened := opened s @ [p]\<rparr>"
  from Cons.prems obtain f s2 where
    f: "ReadFile rt p = Inr f"
    and m: "merge_images rt c (Images f) ?s1 = (s2, None)"
    and r: "merge_inputs rt (c + 1) ps s2 = (s1, None)"
    by (auto simp: Let_def split: prod.splits option.splits sum.splits)
  from Cons.IH [OF r] f m show ?case
    by (simp add: Let_def)
qed

lemma merge_inputs_opened:
  "merge_inputs rt c ps s = (s', None) \<Longrightarrow> opened s' = opened s @ ps"
proof (induction ps arbitrary: c s)
  case Nil
  then show ?case by simp
next
  case (Cons p ps)
  let ?s1 = "s\<lparr>opened := opened s @ [p]\<rparr>"
  from Cons.prems obtain f s2 where
    f: "ReadFile rt p = Inr f"
    and m: "merge_images rt c (Images f) ?s1 = (s2, None)"
    and r: "merge_inputs rt (c + 1) ps s2 = (s', None)"
    by (auto simp: Let_def split: prod.splits option.splits sum.splits)
  from Cons.IH [OF r] merge_images_None [OF m] show ?case
    by simp
qed


section \<open>The sorting contract and the first entry\<close>

lemma go_insertion_sort_contract: "sort_contract go_insertion_sort"
  unfolding sort_contract_def
proof (intro allI impI)
  fix lt :: "'a \<Rightarrow> 'a \<Rightarrow> bool" and xs
  assume swo: "strict_weak_order lt"
  have "range_perm 0 (length xs) xs (go_insertion_sort lt xs)
        \<and> sorted_rng lt (go_insertion_sort lt xs) 0 (length xs)"
    unfolding go_insertion_sort_def by (rule insertionSortLessFunc_spec [OF swo]) simp
  then show "mset (go_insertion_sort lt xs) = mset xs
        \<and> sorted_wrt (\<lambda>x y. \<not> lt y x) (go_insertion_sort lt xs)"
    using sorted_rng_whole [of lt "go_insertion_sort lt xs"] by (auto simp: range_perm_def)
qed

lemma io_ok_go_runtime [simp]: "io_ok (go_runtime fs)"
  by (simp add: io_ok_def go_runtime_def)

subsection \<open>The first entry\<close>

definition first_is_mimetype :: "epub_state \<Rightarrow> bool" where
  "first_is_mimetype s \<longleftrightarrow>
     zw s \<noteq> [] \<and> e_Name (hd (zw s)) = ''mimetype'' \<and> e_Method (hd (zw s)) = Store"

lemma run_invariant:
  assumes "\<And>f s. f \<in> set fs \<Longrightarrow> P s \<Longrightarrow> P (fst (f s))" and "P s"
  shows "P (fst (run fs s))"
  using assms
proof (induction fs arbitrary: s)
  case Nil
  then show ?case by simp
next
  case (Cons f fs)
  have p: "P (fst (f s))"
    using Cons.prems by simp
  show ?case
  proof (cases "f s")
    case (Pair s1 r)
    show ?thesis
    proof (cases r)
      case None
      with Pair p Cons show ?thesis by simp
    next
      case (Some err)
      with Pair p show ?thesis by simp
    qed
  qed
qed

lemma first_is_mimetype_write:
  assumes "first_is_mimetype s"
  shows "first_is_mimetype (fst (write_entry rt msg data s))"
proof -
  from assms obtain x rest where w: "zw s = x # rest"
    by (cases "zw s") (auto simp: first_is_mimetype_def)
  show ?thesis
    using assms w
    by (cases rest)
      (auto simp: first_is_mimetype_def write_entry_def zw_Write_def split: option.splits)
qed

lemma first_is_mimetype_assign:
  "(\<And>s. zw (g s) = zw s) \<Longrightarrow> first_is_mimetype s \<Longrightarrow> first_is_mimetype (fst (assign g s))"
  by (simp add: first_is_mimetype_def assign_def)

lemma first_is_mimetype_create:
  "first_is_mimetype s \<Longrightarrow> first_is_mimetype (fst (create_entry rt msg m name s))"
  by (auto simp: first_is_mimetype_def create_entry_def zw_Create_def split: option.splits)

lemmas first_is_mimetype_steps =
  first_is_mimetype_assign first_is_mimetype_create first_is_mimetype_write

lemma first_is_mimetype_add_images:
  "first_is_mimetype s \<Longrightarrow> first_is_mimetype (fst (add_images rt i imgs s))"
proof (induction imgs arbitrary: i s)
  case Nil
  then show ?case by simp
next
  case (Cons img rest)
  show ?case
    unfolding add_images_Cons
  proof (rule run_invariant [where P = first_is_mimetype])
    show "first_is_mimetype s"
      by (rule Cons.prems)
    fix f s
    assume "f \<in> set
        [assign (\<lambda>s. s\<lparr>contentOPF := contentOPF s
           @ image_item (i + 1) (image_name (i + 1) img) (MimeType img)\<rparr>),
         create_entry rt ''failed to create image file'' Deflate
           (''OEBPS/images/'' @ image_name (i + 1) img),
         write_entry rt ''failed to write image data'' (Data img),
         add_images rt (i + 1) rest]"
      and "first_is_mimetype s"
    then show "first_is_mimetype (fst (f s))"
      using Cons.IH by (auto intro!: first_is_mimetype_steps)
  qed
qed

lemma first_is_mimetype_add_pages:
  "first_is_mimetype s \<Longrightarrow> first_is_mimetype (fst (add_pages rt i imgs s))"
proof (induction imgs arbitrary: i s)
  case Nil
  then show ?case by simp
next
  case (Cons img rest)
  show ?case
    unfolding add_pages_Cons
  proof (rule run_invariant [where P = first_is_mimetype])
    show "first_is_mimetype s"
      by (rule Cons.prems)
    fix f s
    assume "f \<in> set
        [assign (\<lambda>s. s\<lparr>contentOPF := contentOPF s @ page_item (i + 1) (page_name (i + 1))\<rparr>),
         create_entry rt ''failed to create page file'' Deflate
           (''OEBPS/pages/'' @ page_name (i + 1)),
         write_entry rt ''failed to write page content''
           (page_xhtml (i + 1) (image_name (i + 1) img)),
         add_pages rt (i + 1) rest]"
      and "first_is_mimetype s"
    then show "first_is_mimetype (fst (f s))"
      using Cons.IH by (auto intro!: first_is_mimetype_steps)
  qed
qed

lemma ConvertFromCBZ_first:
  "zw (fst (ConvertFromCBZ rt cbzFile outputFile)) = []
   \<or> first_is_mimetype (fst (ConvertFromCBZ rt cbzFile outputFile))"
proof (cases "os_Create rt outputFile")
  case (Some err)
  then show ?thesis
    by (simp add: ConvertFromCBZ_def Let_def del: run.simps)
next
  case None
  let ?s0 = "\<lparr>zw = [], contentOPF = [], tocNCX = []\<rparr>"
  let ?c = "create_entry rt ''failed to create mimetype file'' Store ''mimetype''"
  show ?thesis
  proof (cases "zip_Create rt [] ''mimetype''")
    case (Some err)
    then have "?c ?s0 = (?s0, Some (Wrap ''failed to create mimetype file'' err))"
      by (simp add: create_entry_def zw_Create_def)
    with None show ?thesis
      by (simp add: ConvertFromCBZ_def Let_def)
  next
    case c: None
    let ?s1 = "\<lparr>zw = [entry ''mimetype'' Store []], contentOPF = [], tocNCX = []\<rparr>"
    have c1: "?c ?s0 = (?s1, None)"
      using c by (simp add: create_entry_def zw_Create_def entry_def)
    have s1: "first_is_mimetype ?s1"
      by (simp add: first_is_mimetype_def entry_def)
    have "first_is_mimetype (fst (ConvertFromCBZ rt cbzFile outputFile))"
      unfolding ConvertFromCBZ_def Let_def None option.case run.simps(2) [of ?c] c1 prod.case
    proof (rule run_invariant [where P = first_is_mimetype, OF _ s1])
      fix f s
      assume "f \<in> set
         [write_entry rt ''failed to write mimetype file'' mimetype_bytes,
          create_entry rt ''failed to create container.xml'' Deflate ''META-INF/container.xml'',
          write_entry rt ''failed to write container.xml'' container_xml,
          assign (contentOPF_update (\<lambda>_. opf_header (TrimSuffix (Base (File_Name cbzFile)) ''.cbz'')
            (GenerateUUID rt) (today rt))),
          add_images rt 0 (Images cbzFile), add_pages rt 0 (Images cbzFile),
          assign (\<lambda>s. s\<lparr>contentOPF := contentOPF s @ spine_open\<rparr>),
          assign (add_spine 0 (Images cbzFile)),
          assign (\<lambda>s. s\<lparr>contentOPF := contentOPF s @ spine_close\<rparr>),
          create_entry rt ''failed to create content.opf'' Deflate ''OEBPS/content.opf'',
          (\<lambda>s. write_entry rt ''failed to write content.opf'' (contentOPF s) s),
          assign (tocNCX_update (\<lambda>_. ncx_header (GenerateUUID rt)
            (TrimSuffix (Base (File_Name cbzFile)) ''.cbz''))),
          assign (add_navMap 0 (Images cbzFile)),
          assign (\<lambda>s. s\<lparr>tocNCX := tocNCX s @ ncx_close\<rparr>),
          create_entry rt ''failed to create toc.ncx'' Deflate ''OEBPS/toc.ncx'',
          (\<lambda>s. write_entry rt ''failed to write toc.ncx'' (tocNCX s) s)]"
        and "first_is_mimetype s"
      then show "first_is_mimetype (fst (f s))"
        by (auto intro!: first_is_mimetype_steps first_is_mimetype_add_images
            first_is_mimetype_add_pages simp: add_spine_eq add_navMap_eq)
    qed
    then show ?thesis ..
  qed
qed


section \<open>The claims\<close>

text \<open>
  C4, as the code has it: whatever happens later, an output container that has
  an entry starts with the entry \<open>mimetype\<close>, stored; and when the conversion
  succeeds that entry holds the twenty bytes \<open>application/epub+zip\<close>.
\<close>

theorem mimetype_is_first_entry:
  assumes "ConvertFromCBZ rt cbzFile outputFile = (s, err)"
  shows "(zw s \<noteq> [] \<longrightarrow> e_Name (hd (zw s)) = ''mimetype'' \<and> e_Method (hd (zw s)) = Store)
    \<and> (err = None \<longrightarrow>
         hd (zw s) = \<lparr>e_Name = ''mimetype'', e_Method = Store, e_Data = ''application/epub+zip''\<rparr>
         \<and> length (e_Data (hd (zw s))) = 20)"
proof (intro conjI impI)
  assume "zw s \<noteq> []"
  then have "first_is_mimetype s"
    using ConvertFromCBZ_first [of rt cbzFile outputFile] assms by simp
  then show "e_Name (hd (zw s)) = ''mimetype''" "e_Method (hd (zw s)) = Store"
    by (simp_all add: first_is_mimetype_def)
next
  assume "err = None"
  with assms have "zw s = epub_entries rt cbzFile"
    using ConvertFromCBZ_None [of rt cbzFile outputFile s] by simp
  then show "hd (zw s) = \<lparr>e_Name = ''mimetype'', e_Method = Store, e_Data = ''application/epub+zip''\<rparr>"
    "length (e_Data (hd (zw s))) = 20"
    by (simp_all add: epub_entries_def entry_def mimetype_bytes_def)
qed

theorem mimetype_is_first_entry_witness:
  "snd (ConvertFromCBZ (go_runtime sample_fs) \<lparr>File_Name = ''book.cbz'', Images = []\<rparr> ''book.epub'')
     = None
   \<and> hd (zw (fst (ConvertFromCBZ (go_runtime sample_fs)
         \<lparr>File_Name = ''book.cbz'', Images = []\<rparr> ''book.epub'')))
     = \<lparr>e_Name = ''mimetype'', e_Method = Store, e_Data = ''application/epub+zip''\<rparr>"
  using mimetype_is_first_entry [OF prod.collapse [symmetric],
      of "go_runtime sample_fs" "\<lparr>File_Name = ''book.cbz'', Images = []\<rparr>" "''book.epub''"]
    ConvertFromCBZ_ok [of "go_runtime sample_fs" "\<lparr>File_Name = ''book.cbz'', Images = []\<rparr>"
      "''book.epub''"]
  by simp

theorem mimetype_entry_is_not_21_bytes:
  "e_Data (hd (zw (fst (ConvertFromCBZ (go_runtime sample_fs)
       \<lparr>File_Name = ''book.cbz'', Images = []\<rparr> ''book.epub''))))
     = ''application/epub+zip''
   \<and> length (e_Data (hd (zw (fst (ConvertFromCBZ (go_runtime sample_fs)
       \<lparr>File_Name = ''book.cbz'', Images = []\<rparr> ''book.epub''))))) \<noteq> 21"
proof -
  let ?r = "ConvertFromCBZ (go_runtime sample_fs) \<lparr>File_Name = ''book.cbz'', Images = []\<rparr>
      ''book.epub''"
  have "snd ?r = None"
    by (rule ConvertFromCBZ_ok) simp
  then have "?r = (fst ?r, None)"
    by (metis prod.collapse)
  from ConvertFromCBZ_None [OF this] show ?thesis
    by (simp add: epub_entries_def entry_def mimetype_bytes_def)
qed

lemma sort_contract_Nil: "sort_contract srt \<Longrightarrow> srt name_less [] = []"
  using sort_contract_name(1) [of srt "[]"] by simp

lemma go_sort_Slice_small:
  "length xs \<le> 12 \<Longrightarrow> go_sort_Slice lt xs = go_insertion_sort lt xs"
  unfolding go_sort_Slice_def go_insertion_sort_def
  by (subst pdqsortLessFunc.simps) simp

text \<open>
  C10: a container with no entry that has an image extension is read as an
  archive with no images, and (when no output operation fails) converting that
  archive writes four entries: \<open>mimetype\<close>, \<open>META-INF/container.xml\<close>,
  \<open>OEBPS/content.opf\<close>, whose manifest has the one item \<open>ncx\<close> and whose
  spine is empty, and \<open>OEBPS/toc.ncx\<close>, whose navMap is empty.
\<close>

theorem empty_archive_converts:
  assumes "sort_contract (sort_Slice rt)" and "io_ok rt"
    and "OpenReader rt path = Inr files"
    and "\<forall>file \<in> set files. \<not> isImageFile (unicode_lower rt) (zf_Name file)"
  shows "ReadFile rt path = Inr \<lparr>File_Name = path, Images = []\<rparr>
    \<and> ConvertFromCBZ rt \<lparr>File_Name = path, Images = []\<rparr> outputFile =
        (\<lparr>zw =
            [\<lparr>e_Name = ''mimetype'', e_Method = Store, e_Data = ''application/epub+zip''\<rparr>,
             \<lparr>e_Name = ''META-INF/container.xml'', e_Method = Deflate,
              e_Data = ''<?xml version=\"1.0\" encoding=\"UTF-8\"?>
<container version=\"1.0\" xmlns=\"urn:oasis:names:tc:opendocument:xmlns:container\">
  <rootfiles>
    <rootfile full-path=\"OEBPS/content.opf\" media-type=\"application/oebps-package+xml\"/>
  </rootfiles>
</container>''\<rparr>,
             \<lparr>e_Name = ''OEBPS/content.opf'', e_Method = Deflate,
              e_Data = ''<?xml version=\"1.0\" encoding=\"UTF-8\"?>
<package xmlns=\"http://www.idpf.org/2007/opf\" unique-identifier=\"BookID\" version=\"2.0\">
  <metadata xmlns:dc=\"http://purl.org/dc/elements/1.1/\" xmlns:opf=\"http://www.idpf.org/2007/opf\">
    <dc:title>'' @ TrimSuffix (Base path) ''.cbz'' @ ''</dc:title>
    <dc:language>en</dc:language>
    <dc:identifier id=\"BookID\">urn:uuid:'' @ GenerateUUID rt @ ''</dc:identifier>
    <dc:date>'' @ today rt @ ''</dc:date>
    <dc:creator>CBZ2EPUB Converter</dc:creator>
  </metadata>
  <manifest>
    <item id=\"ncx\" href=\"toc.ncx\" media-type=\"application/x-dtbncx+xml\"/>
''
            @ ''  </manifest>
  <spine toc=\"ncx\">
''
            @ ''  </spine>
</package>''\<rparr>,
             \<lparr>e_Name = ''OEBPS/toc.ncx'', e_Method = Deflate,
              e_Data = ''<?xml version=\"1.0\" encoding=\"UTF-8\"?>
<!DOCTYPE ncx PUBLIC \"-//NISO//DTD ncx 2005-1//EN\" \"http://www.daisy.org/z3986/2005/ncx-2005-1.dtd\">
<ncx xmlns=\"http://www.daisy.org/z3986/2005/ncx/\" version=\"2005-1\">
  <head>
    <meta name=\"dtb:uid\" content=\"urn:uuid:'' @ GenerateUUID rt @ ''\"/>
    <meta name=\"dtb:depth\" content=\"1\"/>
    <meta name=\"dtb:totalPageCount\" content=\"0\"/>
    <meta name=\"dtb:maxPageNumber\" content=\"0\"/>
  </head>
  <docTitle>
    <text>'' @ TrimSuffix (Base path) ''.cbz'' @ ''</text>
  </docTitle>
  <navMap>
''
            @ ''  </navMap>
</ncx>''\<rparr>],
          contentOPF = ''<?xml version=\"1.0\" encoding=\"UTF-8\"?>
<package xmlns=\"http://www.idpf.org/2007/opf\" unique-identifier=\"BookID\" version=\"2.0\">
  <metadata xmlns:dc=\"http://purl.org/dc/elements/1.1/\" xmlns:opf=\"http://www.idpf.org/2007/opf\">
    <dc:title>'' @ TrimSuffix (Base path) ''.cbz'' @ ''</dc:title>
    <dc:language>en</dc:language>
    <dc:identifier id=\"BookID\">urn:uuid:'' @ GenerateUUID rt @ ''</dc:identifier>
    <dc:date>'' @ today rt @ ''</dc:date>
    <dc:creator>CBZ2EPUB Converter</dc:creator>
  </metadata>
  <manifest>
    <item id=\"ncx\" href=\"toc.ncx\" media-type=\"application/x-dtbncx+xml\"/>
''
            @ ''  </manifest>
  <spine toc=\"ncx\">
''
            @ ''  </spine>
</package>'',
          tocNCX = ''<?xml version=\"1.0\" encoding=\"UTF-8\"?>
<!DOCTYPE ncx PUBLIC \"-//NISO//DTD ncx 2005-1//EN\" \"http://www.daisy.org/z3986/2005/ncx-2005-1.dtd\">
<ncx xmlns=\"http://www.daisy.org/z3986/2005/ncx/\" version=\"2005-1\">
  <head>
    <meta name=\"dtb:uid\" content=\"urn:uuid:'' @ GenerateUUID rt @ ''\"/>
    <meta name=\"dtb:depth\" content=\"1\"/>
    <meta name=\"dtb:totalPageCount\" content=\"0\"/>
    <meta name=\"dtb:maxPageNumber\" content=\"0\"/>
  </head>
  <docTitle>
    <text>'' @ TrimSuffix (Base path) ''.cbz'' @ ''</text>
  </docTitle>
  <navMap>
''
            @ ''  </navMap>
</ncx>''\<rparr>,
         None)"
proof
  have "retained (unicode_lower rt) files = []"
    using assms(4) by (auto simp: retained_def filter_empty_conv)
  then have "read_entries (unicode_lower rt) files [] = Inr []"
    by (rule read_entries_no_images)
  then show "ReadFile rt path = Inr \<lparr>File_Name = path, Images = []\<rparr>"
    using assms(3) sort_contract_Nil [OF assms(1)] by (simp add: ReadFile_def)
next
  let ?f = "\<lparr>File_Name = path, Images = []\<rparr>"
  let ?r = "ConvertFromCBZ rt ?f outputFile"
  have "snd ?r = None"
    by (rule ConvertFromCBZ_ok [OF assms(2)])
  then have r: "?r = (fst ?r, None)"
    by (metis prod.collapse)
  from ConvertFromCBZ_None [OF r] have "fst ?r =
      \<lparr>zw = epub_entries rt ?f, contentOPF = opf_text rt ?f, tocNCX = ncx_text rt ?f\<rparr>" .
  then have "?r =
      (\<lparr>zw = epub_entries rt ?f, contentOPF = opf_text rt ?f, tocNCX = ncx_text rt ?f\<rparr>,
       None)"
    using r by simp
  then show "?r = (\<lparr>zw =
            [\<lparr>e_Name = ''mimetype'', e_Method = Store, e_Data = ''application/epub+zip''\<rparr>,
             \<lparr>e_Name = ''META-INF/container.xml'', e_Method = Deflate,
              e_Data = ''<?xml version=\"1.0\" encoding=\"UTF-8\"?>
<container version=\"1.0\" xmlns=\"urn:oasis:names:tc:opendocument:xmlns:container\">
  <rootfiles>
    <rootfile full-path=\"OEBPS/content.opf\" media-type=\"application/oebps-package+xml\"/>
  </rootfiles>
</container>''\<rparr>,
             \<lparr>e_Name = ''OEBPS/content.opf'', e_Method = Deflate,
              e_Data = ''<?xml version=\"1.0\" encoding=\"UTF-8\"?>
<package xmlns=\"http://www.idpf.org/2007/opf\" unique-identifier=\"BookID\" version=\"2.0\">
  <metadata xmlns:dc=\"http://purl.org/dc/elements/1.1/\" xmlns:opf=\"http://www.idpf.org/2007/opf\">
    <dc:title>'' @ TrimSuffix (Base path) ''.cbz'' @ ''</dc:title>
    <dc:language>en</dc:language>
    <dc:identifier id=\"BookID\">urn:uuid:'' @ GenerateUUID rt @ ''</dc:identifier>
    <dc:date>'' @ today rt @ ''</dc:date>
    <dc:creator>CBZ2EPUB Converter</dc:creator>
  </metadata>
  <manifest>
    <item id=\"ncx\" href=\"toc.ncx\" media-type=\"application/x-dtbncx+xml\"/>
''
            @ ''  </manifest>
  <spine toc=\"ncx\">
''
            @ ''  </spine>
</package>''\<rparr>,
             \<lparr>e_Name = ''OEBPS/toc.ncx'', e_Method = Deflate,
              e_Data = ''<?xml version=\"1.0\" encoding=\"UTF-8\"?>
<!DOCTYPE ncx PUBLIC \"-//NISO//DTD ncx 2005-1//EN\" \"http://www.daisy.org/z3986/2005/ncx-2005-1.dtd\">
<ncx xmlns=\"http://www.daisy.org/z3986/2005/ncx/\" version=\"2005-1\">
  <head>
    <meta name=\"dtb:uid\" content=\"urn:uuid:'' @ GenerateUUID rt @ ''\"/>
    <meta name=\"dtb:depth\" content=\"1\"/>
    <meta name=\"dtb:totalPageCount\" content=\"0\"/>
    <meta name=\"dtb:maxPageNumber\" content=\"0\"/>
  </head>
  <docTitle>
    <text>'' @ TrimSuffix (Base path) ''.cbz'' @ ''</text>
  </docTitle>
  <navMap>
''
            @ ''  </navMap>
</ncx>''\<rparr>],
          contentOPF = ''<?xml version=\"1.0\" encoding=\"UTF-8\"?>
<package xmlns=\"http://www.idpf.org/2007/opf\" unique-identifier=\"BookID\" version=\"2.0\">
  <metadata xmlns:dc=\"http://purl.org/dc/elements/1.1/\" xmlns:opf=\"http://www.idpf.org/2007/opf\">
    <dc:title>'' @ TrimSuffix (Base path) ''.cbz'' @ ''</dc:title>
    <dc:language>en</dc:language>
    <dc:identifier id=\"BookID\">urn:uuid:'' @ GenerateUUID rt @ ''</dc:identifier>
    <dc:date>'' @ today rt @ ''</dc:date>
    <dc:creator>CBZ2EPUB Converter</dc:creator>
  </metadata>
  <manifest>
    <item id=\"ncx\" href=\"toc.ncx\" media-type=\"application/x-dtbncx+xml\"/>
''
            @ ''  </manifest>
  <spine toc=\"ncx\">
''
            @ ''  </spine>
</package>'',
          tocNCX = ''<?xml version=\"1.0\" encoding=\"UTF-8\"?>
<!DOCTYPE ncx PUBLIC \"-//NISO//DTD ncx 2005-1//EN\" \"http://www.daisy.org/z3986/2005/ncx-2005-1.dtd\">
<ncx xmlns=\"http://www.daisy.org/z3986/2005/ncx/\" version=\"2005-1\">
  <head>
    <meta name=\"dtb:uid\" content=\"urn:uuid:'' @ GenerateUUID rt @ ''\"/>
    <meta name=\"dtb:depth\" content=\"1\"/>
    <meta name=\"dtb:totalPageCount\" content=\"0\"/>
    <meta name=\"dtb:maxPageNumber\" content=\"0\"/>
  </head>
  <docTitle>
    <text>'' @ TrimSuffix (Base path) ''.cbz'' @ ''</text>
  </docTitle>
  <navMap>
''
            @ ''  </navMap>
</ncx>''\<rparr>,
         None)"
    by (simp add: epub_entries_def opf_text_def ncx_text_def epub_title_def entry_def
        mimetype_bytes_def container_xml_def opf_header_def spine_open_def spine_close_def
        ncx_header_def ncx_close_def)
qed

lemma insertion_runtime_simps [simp]:
  "sort_contract (sort_Slice (insertion_runtime fs))"
  "io_ok (insertion_runtime fs)"
  "OpenReader (insertion_runtime fs) = fs"
  "unicode_lower (insertion_runtime fs) = map lower_byte"
  "GenerateUUID (insertion_runtime fs) = ''123e4567-e89b-42d3-a456-426614174000''"
  "today (insertion_runtime fs) = ''2024-05-17''"
  by (simp_all add: insertion_runtime_def go_insertion_sort_contract go_runtime_def io_ok_def)

theorem empty_archive_converts_witness:
  "ReadFile (insertion_runtime sample_fs) ''empty.cbz''
     = Inr \<lparr>File_Name = ''empty.cbz'', Images = []\<rparr>
   \<and> map e_Name (zw (fst (ConvertFromCBZ (insertion_runtime sample_fs)
         \<lparr>File_Name = ''empty.cbz'', Images = []\<rparr> ''empty.epub'')))
     = [''mimetype'', ''META-INF/container.xml'', ''OEBPS/content.opf'', ''OEBPS/toc.ncx'']
   \<and> snd (ConvertFromCBZ (insertion_runtime sample_fs)
         \<lparr>File_Name = ''empty.cbz'', Images = []\<rparr> ''empty.epub'') = None"
proof -
  have o: "OpenReader (insertion_runtime sample_fs) ''empty.cbz''
      = Inr [dir_entry ''scans/'', file_entry ''scans/notes.txt'' ''nothing yet'']"
    by (simp add: sample_fs_def)
  have n: "\<forall>file \<in> set [dir_entry ''scans/'', file_entry ''scans/notes.txt'' ''nothing yet''].
      \<not> isImageFile (unicode_lower (insertion_runtime sample_fs)) (zf_Name file)"
    by (simp add: isImageFile_def ToLower_def Ext_def dir_entry_def file_entry_def lower_byte_def
        less_eq_char_def)
  show ?thesis
    using empty_archive_converts [OF _ _ o n, of "''empty.epub''"] by simp
qed


text \<open>
  C9: a path that \<^verbatim>\<open>zip.OpenReader\<close> cannot open makes \<^verbatim>\<open>ReadFile\<close> return
  the error "failed to open CBZ file" around the library's error, and no archive.
  When \<^verbatim>\<open>ReadFile\<close> fails on an input of a merge whose earlier inputs were
  merged without error, \<^verbatim>\<open>MergeFiles\<close> returns that error, wrapped with the path;
  the output holds what the earlier inputs gave, the failing path was read once
  and no later path was read.
\<close>

theorem read_failure_stops_merge:
  "(OpenReader rt path = Inl err \<longrightarrow>
      ReadFile rt path = Inl (Wrap ''failed to open CBZ file'' err))
   \<and> (MergeFiles rt before outputFile = (s, None) \<and> ReadFile rt path = Inl e \<longrightarrow>
      opened s = before
      \<and> MergeFiles rt (before @ path # after) outputFile =
          (s\<lparr>opened := before @ [path]\<rparr>,
           Some (Wrap (''failed to read input file '' @ path) e)))"
proof (intro conjI impI)
  assume "OpenReader rt path = Inl err"
  then show "ReadFile rt path = Inl (Wrap ''failed to open CBZ file'' err)"
    by (simp add: ReadFile_def)
next
  assume a: "MergeFiles rt before outputFile = (s, None) \<and> ReadFile rt path = Inl e"
  let ?s0 = "\<lparr>written = [], opened = [], imageCounter = 1\<rparr>"
  from a have os: "os_Create rt outputFile = None"
    by (cases "os_Create rt outputFile") (simp_all add: MergeFiles_def Let_def)
  with a have m: "merge_inputs rt 0 before ?s0 = (s, None)"
    by (simp add: MergeFiles_def Let_def)
  from merge_inputs_opened [OF m] show o: "opened s = before"
    by simp
  have "merge_inputs rt 0 (before @ path # after) ?s0
      = merge_inputs rt (0 + length before) (path # after) s"
    by (rule merge_inputs_append [OF m])
  also have "\<dots> = (s\<lparr>opened := before @ [path]\<rparr>,
      Some (Wrap (''failed to read input file '' @ path) e))"
    using a o by (simp add: Let_def)
  finally show "MergeFiles rt (before @ path # after) outputFile =
      (s\<lparr>opened := before @ [path]\<rparr>, Some (Wrap (''failed to read input file '' @ path) e))"
    using os by (simp add: MergeFiles_def Let_def)
qed

lemma go_runtime_simps [simp]:
  "OpenReader (go_runtime fs) = fs"
  "unicode_lower (go_runtime fs) = map lower_byte"
  "sort_Slice (go_runtime fs) = go_sort_Slice"
  "os_Create (go_runtime fs) path = None"
  "zip_Create (go_runtime fs) w name = None"
  "zip_Write (go_runtime fs) w data = None"
  by (simp_all add: go_runtime_def)

lemma ReadFile_A:
  "ReadFile (go_runtime sample_fs) ''A.cbz'' =
     Inr \<lparr>File_Name = ''A.cbz'',
          Images = [\<lparr>Name = ''image1.jpg'', Data = ''a1'', MimeType = ''image/jpeg''\<rparr>,
                    \<lparr>Name = ''image2.png'', Data = ''a2'', MimeType = ''image/png''\<rparr>]\<rparr>"
  by code_simp

lemma MergeFiles_A:
  "MergeFiles (go_runtime sample_fs) [''A.cbz''] ''merged.cbz'' =
     (\<lparr>written =
         [\<lparr>e_Name = ''chapter001_001.jpg'', e_Method = Deflate, e_Data = ''a1''\<rparr>,
          \<lparr>e_Name = ''chapter001_002.png'', e_Method = Deflate, e_Data = ''a2''\<rparr>],
       opened = [''A.cbz''], imageCounter = 3\<rparr>, None)"
  by code_simp

theorem read_failure_stops_merge_witness:
  "OpenReader (go_runtime sample_fs) ''lost.cbz''
     = Inl (LibError ''open lost.cbz: no such file or directory'')
   \<and> ReadFile (go_runtime sample_fs) ''lost.cbz''
     = Inl (Wrap ''failed to open CBZ file''
         (LibError ''open lost.cbz: no such file or directory''))
   \<and> MergeFiles (go_runtime sample_fs) [''A.cbz'', ''lost.cbz'', ''B.cbz''] ''merged.cbz'' =
     (\<lparr>written =
         [\<lparr>e_Name = ''chapter001_001.jpg'', e_Method = Deflate, e_Data = ''a1''\<rparr>,
          \<lparr>e_Name = ''chapter001_002.png'', e_Method = Deflate, e_Data = ''a2''\<rparr>],
       opened = [''A.cbz'', ''lost.cbz''], imageCounter = 3\<rparr>,
      Some (Wrap ''failed to read input file lost.cbz''
        (Wrap ''failed to open CBZ file''
          (LibError ''open lost.cbz: no such file or directory''))))"
proof -
  have o: "OpenReader (go_runtime sample_fs) ''lost.cbz''
     = Inl (LibError ''open lost.cbz: no such file or directory'')"
    by (simp add: sample_fs_def)
  note t = read_failure_stops_merge [of "go_runtime sample_fs" "''lost.cbz''"
      "LibError ''open lost.cbz: no such file or directory''" "[''A.cbz'']" "''merged.cbz''" _
      "Wrap ''failed to open CBZ file'' (LibError ''open lost.cbz: no such file or directory'')"
      "[''B.cbz'']"]
  from t o have r: "ReadFile (go_runtime sample_fs) ''lost.cbz''
     = Inl (Wrap ''failed to open CBZ file''
         (LibError ''open lost.cbz: no such file or directory''))"
    by blast
  from t MergeFiles_A r o show ?thesis
    by simp
qed


lemma TrimSuffix_append [simp]: "TrimSuffix (stem @ suffix) suffix = stem"
  by (simp add: TrimSuffix_def HasSuffix_def)

lemma Base_of_last_element:
  assumes "name \<noteq> []" and "CHR ''/'' \<notin> set name"
    and "dir = [] \<or> last dir = CHR ''/''"
  shows "Base (dir @ name) = name"
proof -
  have d: "dropWhile (\<lambda>c. c = CHR ''/'') (rev name @ rev dir) = rev name @ rev dir"
    using assms(1,2) by (cases "rev name") (auto simp: rev_eq_Cons_iff)
  have "takeWhile (\<lambda>c. c \<noteq> CHR ''/'') (rev name @ rev dir) = rev name"
  proof (cases "dir = []")
    case True
    with assms(2) show ?thesis
      by (auto simp: takeWhile_eq_all_conv)
  next
    case False
    with assms(3) obtain ds where "rev dir = CHR ''/'' # ds"
      by (cases "rev dir") (auto simp: last_rev hd_rev rev_eq_Cons_iff)
    with assms(2) show ?thesis
      by (subst takeWhile_append2) auto
  qed
  with d assms(1) show ?thesis
    by (simp add: Base_def)
qed

text \<open>
  C8, as the code has it: when the last element of the archive's path ends in
  \<open>.cbz\<close>, in lower case, the title is that element without the \<open>.cbz\<close>.  It is
  the text of \<open>dc:title\<close> in \<open>content.opf\<close> and of \<open>docTitle\<close> in \<open>toc.ncx\<close>, byte
  for byte as it is in the path, and the two documents are the ones written to
  the container.
\<close>

theorem title_is_base_name_without_cbz:
  assumes "ConvertFromCBZ rt cbzFile outputFile = (s, None)"
    and "File_Name cbzFile = dir @ stem @ ''.cbz''"
    and "dir = [] \<or> last dir = CHR ''/''"
    and "CHR ''/'' \<notin> set stem"
  shows "(\<exists>rest. contentOPF s =
      ''<?xml version=\"1.0\" encoding=\"UTF-8\"?>
<package xmlns=\"http://www.idpf.org/2007/opf\" unique-identifier=\"BookID\" version=\"2.0\">
  <metadata xmlns:dc=\"http://purl.org/dc/elements/1.1/\" xmlns:opf=\"http://www.idpf.org/2007/opf\">
    <dc:title>'' @ stem @ ''</dc:title>
    <dc:language>en</dc:language>
    <dc:identifier id=\"BookID\">urn:uuid:'' @ GenerateUUID rt @ ''</dc:identifier>
    <dc:date>'' @ today rt @ ''</dc:date>
    <dc:creator>CBZ2EPUB Converter</dc:creator>
  </metadata>
  <manifest>
    <item id=\"ncx\" href=\"toc.ncx\" media-type=\"application/x-dtbncx+xml\"/>
'' @ rest)
    \<and> (\<exists>rest. tocNCX s =
      ''<?xml version=\"1.0\" encoding=\"UTF-8\"?>
<!DOCTYPE ncx PUBLIC \"-//NISO//DTD ncx 2005-1//EN\" \"http://www.daisy.org/z3986/2005/ncx-2005-1.dtd\">
<ncx xmlns=\"http://www.daisy.org/z3986/2005/ncx/\" version=\"2005-1\">
  <head>
    <meta name=\"dtb:uid\" content=\"urn:uuid:'' @ GenerateUUID rt @ ''\"/>
    <meta name=\"dtb:depth\" content=\"1\"/>
    <meta name=\"dtb:totalPageCount\" content=\"0\"/>
    <meta name=\"dtb:maxPageNumber\" content=\"0\"/>
  </head>
  <docTitle>
    <text>'' @ stem @ ''</text>
  </docTitle>
  <navMap>
'' @ rest)
    \<and> \<lparr>e_Name = ''OEBPS/content.opf'', e_Method = Deflate, e_Data = contentOPF s\<rparr>
        \<in> set (zw s)
    \<and> \<lparr>e_Name = ''OEBPS/toc.ncx'', e_Method = Deflate, e_Data = tocNCX s\<rparr>
        \<in> set (zw s)"
proof -
  have s: "s = \<lparr>zw = epub_entries rt cbzFile, contentOPF = opf_text rt cbzFile,
              tocNCX = ncx_text rt cbzFile\<rparr>"
    using assms(1) by (rule ConvertFromCBZ_None)
  have "Base (dir @ stem @ ''.cbz'') = stem @ ''.cbz''"
    using assms(3,4) by (intro Base_of_last_element) simp_all
  then have t: "epub_title cbzFile = stem"
    unfolding epub_title_def assms(2) by (simp only: TrimSuffix_append)
  show ?thesis
    apply (intro conjI)
    subgoal
      unfolding s opf_text_def t by (rule exI) (simp add: opf_header_def)
    subgoal
      unfolding s ncx_text_def t by (rule exI) (simp add: ncx_header_def)
    subgoal
      unfolding s by (simp add: epub_entries_def entry_def)
    subgoal
      unfolding s by (simp add: epub_entries_def entry_def)
    done
qed

theorem title_is_base_name_without_cbz_witness:
  "snd (ConvertFromCBZ (go_runtime sample_fs) \<lparr>File_Name = ''comics/Tom & Jerry <1>.cbz'', Images = []\<rparr> ''out.epub'') = None
   \<and> (\<exists>rest. contentOPF (fst (ConvertFromCBZ (go_runtime sample_fs) \<lparr>File_Name = ''comics/Tom & Jerry <1>.cbz'', Images = []\<rparr> ''out.epub'')) =
      ''<?xml version=\"1.0\" encoding=\"UTF-8\"?>
<package xmlns=\"http://www.idpf.org/2007/opf\" unique-identifier=\"BookID\" version=\"2.0\">
  <metadata xmlns:dc=\"http://purl.org/dc/elements/1.1/\" xmlns:opf=\"http://www.idpf.org/2007/opf\">
    <dc:title>'' @ ''Tom & Jerry <1>'' @ ''</dc:title>
    <dc:language>en</dc:language>
    <dc:identifier id=\"BookID\">urn:uuid:'' @ ''123e4567-e89b-42d3-a456-426614174000'' @ ''</dc:identifier>
    <dc:date>'' @ ''2024-05-17'' @ ''</dc:date>
    <dc:creator>CBZ2EPUB Converter</dc:creator>
  </metadata>
  <manifest>
    <item id=\"ncx\" href=\"toc.ncx\" media-type=\"application/x-dtbncx+xml\"/>
'' @ rest)
   \<and> (\<exists>rest. tocNCX (fst (ConvertFromCBZ (go_runtime sample_fs) \<lparr>File_Name = ''comics/Tom & Jerry <1>.cbz'', Images = []\<rparr> ''out.epub'')) =
      ''<?xml version=\"1.0\" encoding=\"UTF-8\"?>
<!DOCTYPE ncx PUBLIC \"-//NISO//DTD ncx 2005-1//EN\" \"http://www.daisy.org/z3986/2005/ncx-2005-1.dtd\">
<ncx xmlns=\"http://www.daisy.org/z3986/2005/ncx/\" version=\"2005-1\">
  <head>
    <meta name=\"dtb:uid\" content=\"urn:uuid:'' @ ''123e4567-e89b-42d3-a456-426614174000'' @ ''\"/>
    <meta name=\"dtb:depth\" content=\"1\"/>
    <meta name=\"dtb:totalPageCount\" content=\"0\"/>
    <meta name=\"dtb:maxPageNumber\" content=\"0\"/>
  </head>
  <docTitle>
    <text>'' @ ''Tom & Jerry <1>'' @ ''</text>
  </docTitle>
  <navMap>
'' @ rest)"
proof -
  let ?r = "ConvertFromCBZ (go_runtime sample_fs) \<lparr>File_Name = ''comics/Tom & Jerry <1>.cbz'', Images = []\<rparr> ''out.epub''"
  have ok: "snd ?r = None"
    by (rule ConvertFromCBZ_ok) (rule io_ok_go_runtime)
  have r: "?r = (fst ?r, None)"
    unfolding ok [symmetric] by (rule prod.collapse [symmetric])
  have n: "File_Name \<lparr>File_Name = ''comics/Tom & Jerry <1>.cbz'', Images = []\<rparr> = ''comics/'' @ ''Tom & Jerry <1>'' @ ''.cbz''"
    by simp
  have d: "''comics/'' = [] \<or> last ''comics/'' = CHR ''/''"
    by simp
  have c: "CHR ''/'' \<notin> set ''Tom & Jerry <1>''"
    by simp
  have g: "GenerateUUID (go_runtime sample_fs) = ''123e4567-e89b-42d3-a456-426614174000''"
    "today (go_runtime sample_fs) = ''2024-05-17''"
    by (simp_all add: go_runtime_def)
  from title_is_base_name_without_cbz [OF r n d c] ok show ?thesis
    unfolding g by simp
qed

lemma title_of_upper_case_name:
  "Base ''comics/X.CBZ'' = ''X.CBZ''" "TrimSuffix ''X.CBZ'' ''.cbz'' = ''X.CBZ''"
  by code_simp+

text \<open>
  C8 as stated does not hold: the archive \<open>comics/X.CBZ\<close> has the archive
  extension in upper case.  Its title in \<open>content.opf\<close> and in \<open>toc.ncx\<close> is
  \<open>X.CBZ\<close>, with the extension.
\<close>

theorem upper_case_extension_stays_in_title:
  "snd (ConvertFromCBZ (go_runtime sample_fs) \<lparr>File_Name = ''comics/X.CBZ'', Images = []\<rparr> ''comics/X.epub'') = None
   \<and> contentOPF (fst (ConvertFromCBZ (go_runtime sample_fs) \<lparr>File_Name = ''comics/X.CBZ'', Images = []\<rparr> ''comics/X.epub'')) =
      ''<?xml version=\"1.0\" encoding=\"UTF-8\"?>
<package xmlns=\"http://www.idpf.org/2007/opf\" unique-identifier=\"BookID\" version=\"2.0\">
  <metadata xmlns:dc=\"http://purl.org/dc/elements/1.1/\" xmlns:opf=\"http://www.idpf.org/2007/opf\">
    <dc:title>'' @ ''X.CBZ'' @ ''</dc:title>
    <dc:language>en</dc:language>
    <dc:identifier id=\"BookID\">urn:uuid:'' @ ''123e4567-e89b-42d3-a456-426614174000'' @ ''</dc:identifier>
    <dc:date>'' @ ''2024-05-17'' @ ''</dc:date>
    <dc:creator>CBZ2EPUB Converter</dc:creator>
  </metadata>
  <manifest>
    <item id=\"ncx\" href=\"toc.ncx\" media-type=\"application/x-dtbncx+xml\"/>
''
      @ ''  </manifest>
  <spine toc=\"ncx\">
''
      @ ''  </spine>
</package>''
   \<and> tocNCX (fst (ConvertFromCBZ (go_runtime sample_fs) \<lparr>File_Name = ''comics/X.CBZ'', Images = []\<rparr> ''comics/X.epub'')) =
      ''<?xml version=\"1.0\" encoding=\"UTF-8\"?>
<!DOCTYPE ncx PUBLIC \"-//NISO//DTD ncx 2005-1//EN\" \"http://www.daisy.org/z3986/2005/ncx-2005-1.dtd\">
<ncx xmlns=\"http://www.daisy.org/z3986/2005/ncx/\" version=\"2005-1\">
  <head>
    <meta name=\"dtb:uid\" content=\"urn:uuid:'' @ ''123e4567-e89b-42d3-a456-426614174000'' @ ''\"/>
    <meta name=\"dtb:depth\" content=\"1\"/>
    <meta name=\"dtb:totalPageCount\" content=\"0\"/>
    <meta name=\"dtb:maxPageNumber\" content=\"0\"/>
  </head>
  <docTitle>
    <text>'' @ ''X.CBZ'' @ ''</text>
  </docTitle>
  <navMap>
''
      @ ''  </navMap>
</ncx>''"
proof -
  let ?r = "ConvertFromCBZ (go_runtime sample_fs) \<lparr>File_Name = ''comics/X.CBZ'', Images = []\<rparr> ''comics/X.epub''"
  have ok: "snd ?r = None"
    by (rule ConvertFromCBZ_ok) (rule io_ok_go_runtime)
  have r: "?r = (fst ?r, None)"
    unfolding ok [symmetric] by (rule prod.collapse [symmetric])
  from ConvertFromCBZ_None [OF r] have
    "contentOPF (fst ?r) = opf_text (go_runtime sample_fs) \<lparr>File_Name = ''comics/X.CBZ'', Images = []\<rparr>"
    "tocNCX (fst ?r) = ncx_text (go_runtime sample_fs) \<lparr>File_Name = ''comics/X.CBZ'', Images = []\<rparr>"
    by simp_all
  with ok show ?thesis
    by (simp add: opf_text_def ncx_text_def epub_title_def title_of_upper_case_name
        go_runtime_def opf_header_def ncx_header_def spine_open_def spine_close_def
        ncx_close_def)
qed

subsection \<open>The names of a merge\<close>

lemma length_merged: "length (merged c n fs) = total fs"
  by (induction fs arbitrary: c n) (simp_all add: total_def)

lemma total_Cons: "total (f # fs) = length (Images f) + total fs"
  by (simp add: total_def)

lemma merged_nth:
  "j < length fs \<Longrightarrow> k < length (Images (fs ! j)) \<Longrightarrow>
   merged c n fs ! (total (take j fs) + k)
     = merged_entry (c + j + 1) (n + total (take j fs) + k, Images (fs ! j) ! k)"
proof (induction fs arbitrary: c n j)
  case Nil
  then show ?case by simp
next
  case (Cons f fs)
  show ?case
  proof (cases j)
    case 0
    with Cons.prems show ?thesis
      by (simp add: nth_append total_def nth_enumerate_eq)
  next
    case (Suc j')
    with Cons.prems have "merged (c + 1) (n + length (Images f)) fs ! (total (take j' fs) + k)
      = merged_entry (c + 1 + j' + 1)
          (n + length (Images f) + total (take j' fs) + k, Images (fs ! j') ! k)"
      by (intro Cons.IH) simp_all
    with Suc show ?thesis
      by (simp add: nth_append total_Cons add.assoc)
  qed
qed

definition counter_of :: "string \<Rightarrow> nat" where
  "counter_of name = val (takeWhile is_digit (tl (dropWhile is_digit (drop 7 name))))"

lemma not_digit_chars [simp]: "\<not> is_digit CHR ''_''" "\<not> is_digit CHR ''.''"
  by (simp_all add: is_digit_def less_eq_char_def)

lemma takeWhile_digits:
  "list_all is_digit u \<Longrightarrow> e = [] \<or> \<not> is_digit (hd e) \<Longrightarrow> takeWhile is_digit (u @ e) = u"
  by (cases e) (auto simp: list_all_iff takeWhile_append2 takeWhile_tail)

lemma dropWhile_digits:
  "list_all is_digit u \<Longrightarrow> \<not> is_digit x \<Longrightarrow> dropWhile is_digit (u @ x # r) = x # r"
  by (simp add: list_all_iff dropWhile_append2)

lemma counter_of_name:
  assumes "e = [] \<or> \<not> is_digit (hd e)"
  shows "counter_of (''chapter'' @ pad3 c @ ''_'' @ pad3 n @ e) = n"
proof -
  have "dropWhile is_digit (pad3 c @ CHR ''_'' # pad3 n @ e) = CHR ''_'' # pad3 n @ e"
    by (rule dropWhile_digits [OF pad3_digits]) simp
  moreover have "takeWhile is_digit (pad3 n @ e) = pad3 n"
    by (rule takeWhile_digits [OF pad3_digits assms])
  ultimately show ?thesis
    by (simp add: counter_of_def val_pad3)
qed

lemma Ext_not_digit: "Ext p = [] \<or> \<not> is_digit (hd (Ext p))"
  using Ext_shape [of p] by auto

lemma counter_of_merged_entry: "counter_of (e_Name (merged_entry c (n, img))) = n"
proof -
  have "e_Name (merged_entry c (n, img))
      = ''chapter'' @ pad3 c @ ''_'' @ pad3 n @ Ext (Name img)"
    by (simp add: merged_entry_def entry_def)
  then show ?thesis
    by (simp only: counter_of_name [OF Ext_not_digit])
qed

lemma counters_of_merged:
  "map (\<lambda>e. counter_of (e_Name e)) (merged c n fs) = [n ..< n + total fs]"
proof (induction fs arbitrary: c n)
  case Nil
  then show ?case by (simp add: total_def)
next
  case (Cons f fs)
  have "map (\<lambda>e. counter_of (e_Name e)) (map (merged_entry (c + 1)) (enumerate n (Images f)))
      = map fst (enumerate n (Images f))"
    unfolding map_map by (rule map_cong) (auto simp: counter_of_merged_entry)
  also have "\<dots> = [n ..< n + length (Images f)]"
    by simp
  finally have "map (\<lambda>e. counter_of (e_Name e)) (merged c n (f # fs))
      = [n ..< n + length (Images f)]
        @ [n + length (Images f) ..< n + length (Images f) + total fs]"
    using Cons.IH [of "c + 1" "n + length (Images f)"] by simp
  also have "\<dots> = [n ..< n + length (Images f) + total fs]"
    by (rule upt_add_eq_append [symmetric]) simp
  finally show ?case
    by (simp add: total_Cons add.assoc)
qed

lemma distinct_merged_names: "distinct (map e_Name (merged c n fs))"
proof -
  have "map counter_of (map e_Name (merged c n fs)) = [n ..< n + total fs]"
    using counters_of_merged [of c n fs] by (simp add: comp_def)
  then have "distinct (map counter_of (map e_Name (merged c n fs)))"
    by simp
  then show ?thesis
    using distinct_map [of counter_of "map e_Name (merged c n fs)"] by blast
qed

lemma merge_inputs_reads:
  "merge_inputs rt c ps s = (s', None) \<Longrightarrow> \<exists>fs. list_all2 (\<lambda>p f. ReadFile rt p = Inr f) ps fs"
proof (induction ps arbitrary: c s)
  case Nil
  then show ?case by simp
next
  case (Cons p ps)
  let ?s1 = "s\<lparr>opened := opened s @ [p]\<rparr>"
  from Cons.prems obtain f s2 where
    f: "ReadFile rt p = Inr f"
    and r: "merge_inputs rt (c + 1) ps s2 = (s', None)"
    by (auto simp: Let_def split: prod.splits option.splits sum.splits)
  from Cons.IH [OF r] obtain fs where "list_all2 (\<lambda>p f. ReadFile rt p = Inr f) ps fs" ..
  with f have "list_all2 (\<lambda>p f. ReadFile rt p = Inr f) (p # ps) (f # fs)"
    by simp
  then show ?case ..
qed

lemma MergeFiles_None:
  assumes "MergeFiles rt paths outputFile = (s, None)"
  obtains archives where "list_all2 (\<lambda>p f. ReadFile rt p = Inr f) paths archives"
    and "s = \<lparr>written = merged 0 1 archives, opened = paths, imageCounter = 1 + total archives\<rparr>"
proof -
  let ?s0 = "\<lparr>written = [], opened = [], imageCounter = 1\<rparr>"
  from assms have os: "os_Create rt outputFile = None"
    by (cases "os_Create rt outputFile") (simp_all add: MergeFiles_def Let_def)
  with assms have m: "merge_inputs rt 0 paths ?s0 = (s, None)"
    by (simp add: MergeFiles_def Let_def)
  from merge_inputs_reads [OF m] obtain archives
    where a: "list_all2 (\<lambda>p f. ReadFile rt p = Inr f) paths archives" ..
  from merge_inputs_None [OF m a] a that show thesis
    by simp
qed


text \<open>
  C2: a merge that returns no error has read every input; with \<open>archives\<close> the
  archives it read, in order, the output has one entry for every image of every
  archive and no other entry, the entry of image \<open>k\<close> of archive \<open>c\<close> (both counted
  from zero) stands at the position that is the number of images before it, is
  named \<open>chapter\<close>, the archive's position from one, an underscore, the entry's
  position from one and the image's own extension, and holds the image's data; and
  no two entries have the same name.
\<close>

theorem merge_renames_without_collision:
  assumes "MergeFiles rt paths outputFile = (s, None)"
  shows "\<exists>archives.
      list_all2 (\<lambda>path archive. ReadFile rt path = Inr archive) paths archives
      \<and> length (written s) = sum_list (map (\<lambda>archive. length (Images archive)) archives)
      \<and> (\<forall>c k. c < length archives \<and> k < length (Images (archives ! c)) \<longrightarrow>
            written s ! (total (take c archives) + k) =
              \<lparr>e_Name = ''chapter'' @ pad3 (c + 1) @ ''_''
                   @ pad3 (total (take c archives) + k + 1)
                   @ Ext (Name (Images (archives ! c) ! k)),
               e_Method = Deflate,
               e_Data = Data (Images (archives ! c) ! k)\<rparr>)
      \<and> distinct (map e_Name (written s))"
proof -
  from MergeFiles_None [OF assms] obtain archives where
    a: "list_all2 (\<lambda>p f. ReadFile rt p = Inr f) paths archives"
    and s: "s = \<lparr>written = merged 0 1 archives, opened = paths,
                 imageCounter = 1 + total archives\<rparr>"
    by blast
  have "length (written s) = sum_list (map (\<lambda>archive. length (Images archive)) archives)"
    using s by (simp add: length_merged total_def)
  moreover have "written s ! (total (take c archives) + k) =
      \<lparr>e_Name = ''chapter'' @ pad3 (c + 1) @ ''_'' @ pad3 (total (take c archives) + k + 1)
         @ Ext (Name (Images (archives ! c) ! k)),
       e_Method = Deflate, e_Data = Data (Images (archives ! c) ! k)\<rparr>"
    if "c < length archives \<and> k < length (Images (archives ! c))" for c k
    using merged_nth [of c archives k 0 1] that s by (simp add: merged_entry_def entry_def)
  moreover have "distinct (map e_Name (written s))"
    using s by (simp add: distinct_merged_names)
  ultimately show ?thesis
    using a by blast
qed

lemma ReadFile_B:
  "ReadFile (go_runtime sample_fs) ''B.cbz'' =
     Inr \<lparr>File_Name = ''B.cbz'',
          Images = [\<lparr>Name = ''image1.jpg'', Data = ''b1'', MimeType = ''image/jpeg''\<rparr>,
                    \<lparr>Name = ''image3.gif'', Data = ''b2'', MimeType = ''image/gif''\<rparr>]\<rparr>"
  by code_simp

lemma MergeFiles_A_B:
  "MergeFiles (go_runtime sample_fs) [''A.cbz'', ''B.cbz''] ''merged.cbz'' =
     (\<lparr>written =
         [\<lparr>e_Name = ''chapter001_001.jpg'', e_Method = Deflate, e_Data = ''a1''\<rparr>,
          \<lparr>e_Name = ''chapter001_002.png'', e_Method = Deflate, e_Data = ''a2''\<rparr>,
          \<lparr>e_Name = ''chapter002_003.jpg'', e_Method = Deflate, e_Data = ''b1''\<rparr>,
          \<lparr>e_Name = ''chapter002_004.gif'', e_Method = Deflate, e_Data = ''b2''\<rparr>],
       opened = [''A.cbz'', ''B.cbz''], imageCounter = 5\<rparr>, None)"
  by code_simp

theorem merge_renames_without_collision_witness:
  "snd (MergeFiles (go_runtime sample_fs) [''A.cbz'', ''B.cbz''] ''merged.cbz'') = None
   \<and> length (written (fst (MergeFiles (go_runtime sample_fs) [''A.cbz'', ''B.cbz'']
        ''merged.cbz''))) = 4
   \<and> distinct (map e_Name (written (fst (MergeFiles (go_runtime sample_fs)
        [''A.cbz'', ''B.cbz''] ''merged.cbz''))))"
proof -
  let ?r = "MergeFiles (go_runtime sample_fs) [''A.cbz'', ''B.cbz''] ''merged.cbz''"
  have r: "?r = (fst ?r, None)"
    by (simp add: MergeFiles_A_B)
  from merge_renames_without_collision [OF r] have "distinct (map e_Name (written (fst ?r)))"
    by blast
  then show ?thesis
    by (simp add: MergeFiles_A_B)
qed


lemma pad3_small [simp]:
  "pad3 1 = ''001''" "pad3 2 = ''002''" "pad3 3 = ''003''" "pad3 4 = ''004''"
  by code_simp+

lemma pad3_small_Suc [simp]:
  "pad3 (Suc 0) = ''001''" "pad3 (Suc (Suc 0)) = ''002''"
  "pad3 (Suc (Suc (Suc 0))) = ''003''" "pad3 (Suc (Suc (Suc (Suc 0)))) = ''004''"
  using pad3_small by (simp_all add: eval_nat_numeral)

text \<open>
  C5, as the code has it: the counter is not reset between archives, so merging
  an archive of two images with another of two images gives four entries named
  \<open>chapter001_001\<close>, \<open>chapter001_002\<close>, \<open>chapter002_003\<close> and \<open>chapter002_004\<close>, each
  followed by the extension of its image.
\<close>

theorem merge_two_and_two:
  assumes "MergeFiles rt [pathA, pathB] outputFile = (s, None)"
    and "ReadFile rt pathA = Inr A" and "Images A = [a1, a2]"
    and "ReadFile rt pathB = Inr B" and "Images B = [b1, b2]"
  shows "map e_Name (written s) =
      [''chapter001_001'' @ Ext (Name a1), ''chapter001_002'' @ Ext (Name a2),
       ''chapter002_003'' @ Ext (Name b1), ''chapter002_004'' @ Ext (Name b2)]"
proof -
  from MergeFiles_None [OF assms(1)] obtain archives where
    a: "list_all2 (\<lambda>p f. ReadFile rt p = Inr f) [pathA, pathB] archives"
    and s: "s = \<lparr>written = merged 0 1 archives, opened = [pathA, pathB],
                 imageCounter = 1 + total archives\<rparr>"
    by blast
  from a assms(2,4) have "archives = [A, B]"
    by (auto simp: list_all2_Cons1)
  with s assms(3,5) show ?thesis
    by (simp add: merged_entry_def entry_def)
qed

theorem merge_two_and_two_witness:
  "snd (MergeFiles (go_runtime sample_fs) [''A.cbz'', ''B.cbz''] ''merged.cbz'') = None
   \<and> map e_Name (written (fst (MergeFiles (go_runtime sample_fs) [''A.cbz'', ''B.cbz'']
        ''merged.cbz''))) =
      [''chapter001_001'' @ Ext ''image1.jpg'', ''chapter001_002'' @ Ext ''image2.png'',
       ''chapter002_003'' @ Ext ''image1.jpg'', ''chapter002_004'' @ Ext ''image3.gif'']"
proof -
  let ?r = "MergeFiles (go_runtime sample_fs) [''A.cbz'', ''B.cbz''] ''merged.cbz''"
  have r: "?r = (fst ?r, None)"
    by (simp add: MergeFiles_A_B)
  have "map e_Name (written (fst ?r)) =
      [''chapter001_001''
         @ Ext (Name \<lparr>Name = ''image1.jpg'', Data = ''a1'', MimeType = ''image/jpeg''\<rparr>),
       ''chapter001_002''
         @ Ext (Name \<lparr>Name = ''image2.png'', Data = ''a2'', MimeType = ''image/png''\<rparr>),
       ''chapter002_003''
         @ Ext (Name \<lparr>Name = ''image1.jpg'', Data = ''b1'', MimeType = ''image/jpeg''\<rparr>),
       ''chapter002_004''
         @ Ext (Name \<lparr>Name = ''image3.gif'', Data = ''b2'', MimeType = ''image/gif''\<rparr>)]"
    by (rule merge_two_and_two [OF r ReadFile_A _ ReadFile_B]) simp_all
  then show ?thesis
    by (simp add: MergeFiles_A_B)
qed

theorem merge_counter_is_not_reset:
  "map e_Name (written (fst (MergeFiles (go_runtime sample_fs) [''A.cbz'', ''B.cbz'']
      ''merged.cbz''))) =
     [''chapter001_001.jpg'', ''chapter001_002.png'', ''chapter002_003.jpg'',
      ''chapter002_004.gif'']
   \<and> take 14 (map e_Name (written (fst (MergeFiles (go_runtime sample_fs)
      [''A.cbz'', ''B.cbz''] ''merged.cbz''))) ! 2) \<noteq> ''chapter002_001''"
  by (simp add: MergeFiles_A_B)

text \<open>
  C3, as the code has it: the images come back sorted by name, the names compared
  byte by byte, and they are the images of the retained entries, each once.
  \<^verbatim>\<open>sort.Slice\<close> does not promise the order of images with the same name.
\<close>

theorem read_sorts_by_name:
  assumes "sort_contract (sort_Slice rt)" and "ReadFile rt path = Inr archive"
  shows "sorted (map Name (Images archive))
    \<and> (\<exists>files. OpenReader rt path = Inr files
          \<and> mset (Images archive)
              = mset (map (image_of (unicode_lower rt)) (retained (unicode_lower rt) files)))
    \<and> strict_weak_order name_less"
proof -
  from ReadFile_Inr [OF assms(2)] obtain files where
    o: "OpenReader rt path = Inr files"
    and a: "archive = \<lparr>File_Name = path,
               Images = sort_Slice rt name_less
                 (map (image_of (unicode_lower rt)) (retained (unicode_lower rt) files))\<rparr>"
    by blast
  from a sort_contract_name [OF assms(1)] o name_less_swo show ?thesis
    by auto
qed

lemma ReadFile_test_insertion:
  "ReadFile (insertion_runtime sample_fs) ''test.cbz'' =
     Inr \<lparr>File_Name = ''test.cbz'',
          Images = [\<lparr>Name = ''image1.jpg'', Data = ''A'', MimeType = ''image/jpeg''\<rparr>,
                    \<lparr>Name = ''image2.png'', Data = ''B'', MimeType = ''image/png''\<rparr>]\<rparr>"
  by code_simp

theorem read_sorts_by_name_witness:
  "ReadFile (insertion_runtime sample_fs) ''test.cbz'' =
     Inr \<lparr>File_Name = ''test.cbz'',
          Images = [\<lparr>Name = ''image1.jpg'', Data = ''A'', MimeType = ''image/jpeg''\<rparr>,
                    \<lparr>Name = ''image2.png'', Data = ''B'', MimeType = ''image/png''\<rparr>]\<rparr>
   \<and> sorted [''image1.jpg'', ''image2.png'']"
  using read_sorts_by_name [OF _ ReadFile_test_insertion] ReadFile_test_insertion by simp

text \<open>
  The order that the specification describes: the images of the retained entries
  by name, images of the same name in the order of their entries in the container.
\<close>

definition images_in_stable_order :: "(string \<Rightarrow> string) \<Rightarrow> zip_file list \<Rightarrow> Image list" where
  "images_in_stable_order uni files =
     sort_key Name (map (image_of uni) (retained uni files))"

lemma images_in_stable_order_keeps_ties:
  "filter (\<lambda>img. Name img = name) (images_in_stable_order uni files) =
   filter (\<lambda>img. Name img = name) (map (image_of uni) (retained uni files))"
  unfolding images_in_stable_order_def by (rule sort_key_stable)

text \<open>
  C3 as stated does not hold: the archive \<open>shelf.cbz\<close> has twelve entries
  \<open>c01/page.jpg\<close> to \<open>c12/page.jpg\<close>, with the contents "01" to "12", and then
  \<open>cover.jpg\<close>.  The twelve images are all named \<open>page.jpg\<close>; \<^verbatim>\<open>ReadFile\<close>
  returns them after the cover in the order 07, 03, 04, 05, 06, 01, 08, 09, 10,
  11, 12, 02, not in the order of the container.
\<close>

theorem same_name_images_are_reordered:
  "ReadFile (go_runtime sample_fs) ''shelf.cbz'' =
     Inr \<lparr>File_Name = ''shelf.cbz'',
          Images =
            [\<lparr>Name = ''cover.jpg'', Data = ''cover'', MimeType = ''image/jpeg''\<rparr>,
             \<lparr>Name = ''page.jpg'', Data = ''07'', MimeType = ''image/jpeg''\<rparr>,
             \<lparr>Name = ''page.jpg'', Data = ''03'', MimeType = ''image/jpeg''\<rparr>,
             \<lparr>Name = ''page.jpg'', Data = ''04'', MimeType = ''image/jpeg''\<rparr>,
             \<lparr>Name = ''page.jpg'', Data = ''05'', MimeType = ''image/jpeg''\<rparr>,
             \<lparr>Name = ''page.jpg'', Data = ''06'', MimeType = ''image/jpeg''\<rparr>,
             \<lparr>Name = ''page.jpg'', Data = ''01'', MimeType = ''image/jpeg''\<rparr>,
             \<lparr>Name = ''page.jpg'', Data = ''08'', MimeType = ''image/jpeg''\<rparr>,
             \<lparr>Name = ''page.jpg'', Data = ''09'', MimeType = ''image/jpeg''\<rparr>,
             \<lparr>Name = ''page.jpg'', Data = ''10'', MimeType = ''image/jpeg''\<rparr>,
             \<lparr>Name = ''page.jpg'', Data = ''11'', MimeType = ''image/jpeg''\<rparr>,
             \<lparr>Name = ''page.jpg'', Data = ''12'', MimeType = ''image/jpeg''\<rparr>,
             \<lparr>Name = ''page.jpg'', Data = ''02'', MimeType = ''image/jpeg''\<rparr>]\<rparr>
   \<and> (case sample_fs ''shelf.cbz'' of
        Inl err \<Rightarrow> False
      | Inr files \<Rightarrow>
          map Data (images_in_stable_order (map lower_byte) files) =
            [''cover'', ''01'', ''02'', ''03'', ''04'', ''05'', ''06'', ''07'', ''08'', ''09'',
             ''10'', ''11'', ''12''])"
  by code_simp


text \<open>
  C6: every image that \<^verbatim>\<open>ReadFile\<close> returns has one of the five image
  extensions, compared in lower case, and its MIME type is the one the table
  gives for that extension, never the fallback.
\<close>

theorem read_keeps_images_only:
  assumes "sort_contract (sort_Slice rt)" and "ReadFile rt path = Inr archive"
    and "img \<in> set (Images archive)"
  shows "ToLower (unicode_lower rt) (Ext (Name img))
        \<in> {''.jpg'', ''.jpeg'', ''.png'', ''.gif'', ''.webp''}
    \<and> MimeType img =
        (if ToLower (unicode_lower rt) (Ext (Name img)) \<in> {''.jpg'', ''.jpeg''}
           then ''image/jpeg''
         else if ToLower (unicode_lower rt) (Ext (Name img)) = ''.png'' then ''image/png''
         else if ToLower (unicode_lower rt) (Ext (Name img)) = ''.gif'' then ''image/gif''
         else ''image/webp'')
    \<and> MimeType img \<noteq> ''application/octet-stream''"
proof -
  let ?uni = "unicode_lower rt"
  from ReadFile_Inr [OF assms(2)] obtain files where
    a: "archive = \<lparr>File_Name = path,
               Images = sort_Slice rt name_less (map (image_of ?uni) (retained ?uni files))\<rparr>"
    by blast
  have "set (Images archive) = set (map (image_of ?uni) (retained ?uni files))"
    using a sort_contract_name(1) [OF assms(1)] by (metis File.select_convs(2) mset_eq_setD)
  with assms(3) obtain zf where f: "zf \<in> set (retained ?uni files)"
    and i: "img = image_of ?uni zf"
    by auto
  from retained_image [OF f] i have
    "isImageFile ?uni (Name img)" "MimeType img = getMimeType ?uni (Name img)"
    by simp_all
  then show ?thesis
    by (auto simp: isImageFile_def getMimeType_def Let_def)
qed

theorem read_keeps_images_only_witness:
  "\<lparr>Name = ''image2.png'', Data = ''B'', MimeType = ''image/png''\<rparr>
     \<in> set (Images \<lparr>File_Name = ''test.cbz'',
          Images = [\<lparr>Name = ''image1.jpg'', Data = ''A'', MimeType = ''image/jpeg''\<rparr>,
                    \<lparr>Name = ''image2.png'', Data = ''B'', MimeType = ''image/png''\<rparr>]\<rparr>)
   \<and> ToLower (unicode_lower (insertion_runtime sample_fs)) (Ext ''image2.png'') = ''.png''"
proof -
  have "\<lparr>Name = ''image2.png'', Data = ''B'', MimeType = ''image/png''\<rparr>
     \<in> set (Images \<lparr>File_Name = ''test.cbz'',
          Images = [\<lparr>Name = ''image1.jpg'', Data = ''A'', MimeType = ''image/jpeg''\<rparr>,
                    \<lparr>Name = ''image2.png'', Data = ''B'', MimeType = ''image/png''\<rparr>]\<rparr>)"
    by simp
  from read_keeps_images_only [OF _ ReadFile_test_insertion this] show ?thesis
    by (auto split: if_splits)
qed

subsection \<open>The names in a converted container\<close>

definition seq_of :: "nat \<Rightarrow> string \<Rightarrow> nat" where
  "seq_of skip name = val (takeWhile is_digit (drop skip name))"

lemma seq_of_image_entry: "seq_of 18 (e_Name (image_entry (seq, img))) = seq"
  by (simp add: seq_of_def image_entry_def entry_def image_name_def
      takeWhile_digits [OF pad3_digits Ext_not_digit] val_pad3)

lemma seq_of_page_entry: "seq_of 16 (e_Name (page_entry (seq, img))) = seq"
proof -
  have "takeWhile is_digit (pad3 seq @ ''.xhtml'') = pad3 seq"
    by (rule takeWhile_digits [OF pad3_digits]) simp
  then show ?thesis
    by (simp add: seq_of_def page_entry_def entry_def page_name_def val_pad3)
qed

lemma distinct_by_key:
  assumes "map key xs = [n ..< n + length xs]"
  shows "distinct xs"
proof -
  have "distinct (map key xs)"
    unfolding assms by simp
  then show ?thesis
    by (simp add: distinct_map)
qed

lemma distinct_image_names: "distinct (map e_Name (map image_entry (enumerate n imgs)))"
proof (rule distinct_by_key [where key = "seq_of 18" and n = n])
  have "map (seq_of 18) (map e_Name (map image_entry (enumerate n imgs)))
      = map fst (enumerate n imgs)"
    unfolding map_map by (rule map_cong) (auto simp: seq_of_image_entry)
  then show "map (seq_of 18) (map e_Name (map image_entry (enumerate n imgs)))
      = [n ..< n + length (map e_Name (map image_entry (enumerate n imgs)))]"
    by simp
qed

lemma distinct_page_names: "distinct (map e_Name (map page_entry (enumerate n imgs)))"
proof (rule distinct_by_key [where key = "seq_of 16" and n = n])
  have "map (seq_of 16) (map e_Name (map page_entry (enumerate n imgs)))
      = map fst (enumerate n imgs)"
    unfolding map_map by (rule map_cong) (auto simp: seq_of_page_entry)
  then show "map (seq_of 16) (map e_Name (map page_entry (enumerate n imgs)))
      = [n ..< n + length (map e_Name (map page_entry (enumerate n imgs)))]"
    by simp
qed

lemma image_entry_prefix: "x \<in> set (map e_Name (map image_entry es)) \<Longrightarrow> take 8 x = ''OEBPS/im''"
  by (auto simp: image_entry_def entry_def)

lemma page_entry_prefix: "x \<in> set (map e_Name (map page_entry es)) \<Longrightarrow> take 8 x = ''OEBPS/pa''"
  by (auto simp: page_entry_def entry_def)

lemma not_in_by_prefix:
  "(\<And>x. x \<in> S \<Longrightarrow> take 8 x = k) \<Longrightarrow> take 8 y \<noteq> k \<Longrightarrow> y \<notin> S"
  by blast

lemma distinct_epub_names: "distinct (map e_Name (epub_entries rt cbzFile))"
proof -
  let ?is = "map e_Name (map image_entry (enumerate 1 (Images cbzFile)))"
  let ?ps = "map e_Name (map page_entry (enumerate 1 (Images cbzFile)))"
  have n: "map e_Name (epub_entries rt cbzFile)
      = [''mimetype'', ''META-INF/container.xml''] @ ?is @ ?ps
        @ [''OEBPS/content.opf'', ''OEBPS/toc.ncx'']"
    by (simp add: epub_entries_def entry_def)
  have i: "\<And>x. x \<in> set ?is \<Longrightarrow> take 8 x = ''OEBPS/im''"
    by (rule image_entry_prefix)
  have p: "\<And>x. x \<in> set ?ps \<Longrightarrow> take 8 x = ''OEBPS/pa''"
    by (rule page_entry_prefix)
  have ip: "set ?is \<inter> set ?ps = {}"
  proof (rule ccontr)
    assume "set ?is \<inter> set ?ps \<noteq> {}"
    then obtain x where "x \<in> set ?is" "x \<in> set ?ps"
      by blast
    with i [of x] p [of x] show False
      by simp
  qed
  have o: "''mimetype'' \<notin> set ?is" "''mimetype'' \<notin> set ?ps"
    "''META-INF/container.xml'' \<notin> set ?is" "''META-INF/container.xml'' \<notin> set ?ps"
    "''OEBPS/content.opf'' \<notin> set ?is" "''OEBPS/content.opf'' \<notin> set ?ps"
    "''OEBPS/toc.ncx'' \<notin> set ?is" "''OEBPS/toc.ncx'' \<notin> set ?ps"
  proof -
    have t: "take 8 ''mimetype'' = ''mimetype''"
      "take 8 ''META-INF/container.xml'' = ''META-INF''"
      "take 8 ''OEBPS/content.opf'' = ''OEBPS/co''"
      "take 8 ''OEBPS/toc.ncx'' = ''OEBPS/to''"
      by code_simp+
    have o1: "y \<notin> set ?is" if "take 8 y \<noteq> ''OEBPS/im''" for y
      using i that by blast
    have o2: "y \<notin> set ?ps" if "take 8 y \<noteq> ''OEBPS/pa''" for y
      using p that by blast
    show "''mimetype'' \<notin> set ?is" "''META-INF/container.xml'' \<notin> set ?is"
      "''OEBPS/content.opf'' \<notin> set ?is" "''OEBPS/toc.ncx'' \<notin> set ?is"
      by (rule o1, simp add: t)+
    show "''mimetype'' \<notin> set ?ps" "''META-INF/container.xml'' \<notin> set ?ps"
      "''OEBPS/content.opf'' \<notin> set ?ps" "''OEBPS/toc.ncx'' \<notin> set ?ps"
      by (rule o2, simp add: t)+
  qed
  have d: "distinct ?is" "distinct ?ps"
    by (rule distinct_image_names distinct_page_names)+
  show ?thesis
    unfolding n distinct_append using ip o d by simp
qed

lemma itemref_inj: "itemref m = itemref n \<Longrightarrow> m = n"
  by (auto simp: itemref_def dest: pad3_inj)

lemma navPoint_inj: "navPoint m = navPoint n \<Longrightarrow> m = n"
proof -
  assume "navPoint m = navPoint n"
  then have "\<exists>r s. dec m @ CHR 0x22 # r = dec n @ CHR 0x22 # s"
    by (simp add: navPoint_def) blast
  then obtain r s where e: "dec m @ CHR 0x22 # r = dec n @ CHR 0x22 # s"
    by blast
  have "\<not> is_digit (CHR 0x22)"
    by (simp add: is_digit_def less_eq_char_def)
  then have "dec m = dec n"
    using digits_then_other [OF dec_digits dec_digits _ _ e] by simp
  then show "m = n"
    by (rule dec_inj)
qed

lemma map_enumerate_seq:
  "map (\<lambda>(seq, img). f seq) (enumerate n imgs) = map f [n ..< n + length imgs]"
proof -
  have "map (\<lambda>(seq, img). f seq) (enumerate n imgs) = map f (map fst (enumerate n imgs))"
    unfolding map_map by (rule map_cong) auto
  then show ?thesis
    by simp
qed

lemma image_entry_eq:
  "image_entry = (\<lambda>(seq, img).
            \<lparr>e_Name = ''OEBPS/images/image'' @ pad3 seq @ Ext (Name img),
             e_Method = Deflate, e_Data = Data img\<rparr>)"
  by (simp add: image_entry_def entry_def image_name_def)

lemma page_entry_eq:
  "page_entry = (\<lambda>(seq, img).
            \<lparr>e_Name = ''OEBPS/pages/page'' @ pad3 seq @ ''.xhtml'',
             e_Method = Deflate,
             e_Data = page_xhtml seq (''image'' @ pad3 seq @ Ext (Name img))\<rparr>)"
  by (simp add: page_entry_def entry_def image_name_def page_name_def)

lemma opf_text_spine:
  "opf_text rt cbzFile =
     (opf_header (epub_title cbzFile) (GenerateUUID rt) (today rt)
     @ concat (map (\<lambda>(seq, img). image_item seq (image_name seq img) (MimeType img))
         (enumerate 1 (Images cbzFile)))
     @ concat (map (\<lambda>(seq, img). page_item seq (page_name seq)) (enumerate 1 (Images cbzFile))))
     @ spine_open
     @ concat (map itemref [1 ..< 1 + length (Images cbzFile)])
     @ spine_close"
  unfolding opf_text_def map_enumerate_seq [of itemref] append_assoc ..

lemma ncx_text_navMap:
  "ncx_text rt cbzFile =
     ncx_header (GenerateUUID rt) (epub_title cbzFile)
     @ concat (map navPoint [1 ..< 1 + length (Images cbzFile)])
     @ ncx_close"
  unfolding ncx_text_def map_enumerate_seq [of navPoint] ..


definition test_archive :: File where
  "test_archive =
     \<lparr>File_Name = ''test.cbz'',
      Images = [\<lparr>Name = ''image1.jpg'', Data = ''A'', MimeType = ''image/jpeg''\<rparr>,
                \<lparr>Name = ''image2.png'', Data = ''B'', MimeType = ''image/png''\<rparr>]\<rparr>"

lemma Ext_test [simp]:
  "Ext ''image1.jpg'' = ''.jpg''" "Ext ''image2.png'' = ''.png''"
  by code_simp+

lemma enumerate_two: "enumerate (Suc 0) [x, y] = [(1, x), (2, y)]"
  by (simp add: enumerate_simps)

text \<open>
  C1: a conversion that returns no error has written, after \<open>mimetype\<close> and
  \<open>META-INF/container.xml\<close>, one image entry per image, named
  \<open>OEBPS/images/image\<close> with the image's position from one and its extension, then
  one page entry per image, named \<open>OEBPS/pages/page\<close> with the position and showing
  that image, then \<open>content.opf\<close> and \<open>toc.ncx\<close>; no two entries have the same
  name.  The spine of \<open>content.opf\<close> has one \<open>itemref\<close> line for each of the pages
  1 to the number of images, in this order; the navMap of \<open>toc.ncx\<close> has one
  \<open>navPoint\<close> for each of the pages 1 to the number of images, in the same order,
  with the position as its \<open>playOrder\<close>.  Different positions give different lines,
  so every page is there once.
\<close>

theorem convert_writes_one_page_per_image:
  assumes "ConvertFromCBZ rt cbzFile outputFile = (s, None)"
  shows "zw s =
      [\<lparr>e_Name = ''mimetype'', e_Method = Store, e_Data = ''application/epub+zip''\<rparr>,
       \<lparr>e_Name = ''META-INF/container.xml'', e_Method = Deflate,
        e_Data = ''<?xml version=\"1.0\" encoding=\"UTF-8\"?>
<container version=\"1.0\" xmlns=\"urn:oasis:names:tc:opendocument:xmlns:container\">
  <rootfiles>
    <rootfile full-path=\"OEBPS/content.opf\" media-type=\"application/oebps-package+xml\"/>
  </rootfiles>
</container>''\<rparr>]
      @ map (\<lambda>(seq, img).
            \<lparr>e_Name = ''OEBPS/images/image'' @ pad3 seq @ Ext (Name img),
             e_Method = Deflate, e_Data = Data img\<rparr>)
          (enumerate 1 (Images cbzFile))
      @ map (\<lambda>(seq, img).
            \<lparr>e_Name = ''OEBPS/pages/page'' @ pad3 seq @ ''.xhtml'',
             e_Method = Deflate,
             e_Data = ''<?xml version=\"1.0\" encoding=\"UTF-8\"?>
<!DOCTYPE html PUBLIC \"-//W3C//DTD XHTML 1.1//EN\" \"http://www.w3.org/TR/xhtml11/DTD/xhtml11.dtd\">
<html xmlns=\"http://www.w3.org/1999/xhtml\">
<head>
  <title>Page '' @ dec seq @ ''</title>
  <style type=\"text/css\">
    img { max-width: 100%; max-height: 100%; }
    body { margin: 0; padding: 0; text-align: center; }
  </style>
</head>
<body>
  <div>
    <img src=\"../images/'' @ ''image'' @ pad3 seq @ Ext (Name img) @ ''\" alt=\"Page '' @ dec seq @ ''\" />
  </div>
</body>
</html>''\<rparr>)
          (enumerate 1 (Images cbzFile))
      @ [\<lparr>e_Name = ''OEBPS/content.opf'', e_Method = Deflate, e_Data = contentOPF s\<rparr>,
         \<lparr>e_Name = ''OEBPS/toc.ncx'', e_Method = Deflate, e_Data = tocNCX s\<rparr>]
    \<and> distinct (map e_Name (zw s))
    \<and> contentOPF s =
      ''<?xml version=\"1.0\" encoding=\"UTF-8\"?>
<package xmlns=\"http://www.idpf.org/2007/opf\" unique-identifier=\"BookID\" version=\"2.0\">
  <metadata xmlns:dc=\"http://purl.org/dc/elements/1.1/\" xmlns:opf=\"http://www.idpf.org/2007/opf\">
    <dc:title>'' @ TrimSuffix (Base (File_Name cbzFile)) ''.cbz'' @ ''</dc:title>
    <dc:language>en</dc:language>
    <dc:identifier id=\"BookID\">urn:uuid:'' @ GenerateUUID rt @ ''</dc:identifier>
    <dc:date>'' @ today rt @ ''</dc:date>
    <dc:creator>CBZ2EPUB Converter</dc:creator>
  </metadata>
  <manifest>
    <item id=\"ncx\" href=\"toc.ncx\" media-type=\"application/x-dtbncx+xml\"/>
''
      @ concat (map (\<lambda>(seq, img). ''    <item id=\"image'' @ pad3 seq @ ''\" href=\"images/'' @ ''image'' @ pad3 seq @ Ext (Name img) @ ''\" media-type=\"'' @ MimeType img @ ''\"/>
'')
          (enumerate 1 (Images cbzFile)))
      @ concat (map (\<lambda>(seq, img). ''    <item id=\"page'' @ pad3 seq @ ''\" href=\"pages/'' @ ''page'' @ pad3 seq @ ''.xhtml'' @ ''\" media-type=\"application/xhtml+xml\"/>
'')
          (enumerate 1 (Images cbzFile)))
      @ ''  </manifest>
  <spine toc=\"ncx\">
''
      @ concat (map (\<lambda>seq. ''    <itemref idref=\"page'' @ pad3 seq @ ''\"/>
'')
          [1 ..< 1 + length (Images cbzFile)])
      @ ''  </spine>
</package>''
    \<and> tocNCX s =
      ''<?xml version=\"1.0\" encoding=\"UTF-8\"?>
<!DOCTYPE ncx PUBLIC \"-//NISO//DTD ncx 2005-1//EN\" \"http://www.daisy.org/z3986/2005/ncx-2005-1.dtd\">
<ncx xmlns=\"http://www.daisy.org/z3986/2005/ncx/\" version=\"2005-1\">
  <head>
    <meta name=\"dtb:uid\" content=\"urn:uuid:'' @ GenerateUUID rt @ ''\"/>
    <meta name=\"dtb:depth\" content=\"1\"/>
    <meta name=\"dtb:totalPageCount\" content=\"0\"/>
    <meta name=\"dtb:maxPageNumber\" content=\"0\"/>
  </head>
  <docTitle>
    <text>'' @ TrimSuffix (Base (File_Name cbzFile)) ''.cbz'' @ ''</text>
  </docTitle>
  <navMap>
''
      @ concat (map (\<lambda>seq. ''    <navPoint id=\"navpoint-'' @ dec seq @ ''\" playOrder=\"'' @ dec seq @ ''\">
      <navLabel>
        <text>Page '' @ dec seq @ ''</text>
      </navLabel>
      <content src=\"pages/page'' @ pad3 seq @ ''.xhtml\"/>
    </navPoint>
'')
          [1 ..< 1 + length (Images cbzFile)])
      @ ''  </navMap>
</ncx>''
    \<and> inj (\<lambda>seq. ''    <itemref idref=\"page'' @ pad3 seq @ ''\"/>
'')
    \<and> inj (\<lambda>seq. ''    <navPoint id=\"navpoint-'' @ dec seq @ ''\" playOrder=\"'' @ dec seq @ ''\">
      <navLabel>
        <text>Page '' @ dec seq @ ''</text>
      </navLabel>
      <content src=\"pages/page'' @ pad3 seq @ ''.xhtml\"/>
    </navPoint>
'')"
proof -
  have s: "s = \<lparr>zw = epub_entries rt cbzFile, contentOPF = opf_text rt cbzFile,
              tocNCX = ncx_text rt cbzFile\<rparr>"
    using assms by (rule ConvertFromCBZ_None)
  have z: "zw s = epub_entries rt cbzFile"
    and c: "contentOPF s = opf_text rt cbzFile"
    and t: "tocNCX s = ncx_text rt cbzFile"
    unfolding s by simp_all
  have ie: "itemref = (\<lambda>seq. ''    <itemref idref=\"page'' @ pad3 seq @ ''\"/>
'')"
    by (simp add: fun_eq_iff itemref_def)
  have ne: "navPoint = (\<lambda>seq. ''    <navPoint id=\"navpoint-'' @ dec seq @ ''\" playOrder=\"'' @ dec seq @ ''\">
      <navLabel>
        <text>Page '' @ dec seq @ ''</text>
      </navLabel>
      <content src=\"pages/page'' @ pad3 seq @ ''.xhtml\"/>
    </navPoint>
'')"
    by (simp add: fun_eq_iff navPoint_def)
  have i: "inj itemref" "inj navPoint"
    by (rule injI, erule itemref_inj) (rule injI, erule navPoint_inj)
  show ?thesis
    apply (intro conjI)
    subgoal
      unfolding z c t epub_entries_def entry_def image_entry_eq page_entry_eq
      by (simp add: mimetype_bytes_def container_xml_def page_xhtml_def)
    subgoal
      unfolding z by (rule distinct_epub_names)
    subgoal
      unfolding c opf_text_spine epub_title_def ie
      by (simp add: opf_header_def image_item_def page_item_def spine_open_def
          spine_close_def image_name_def page_name_def)
    subgoal
      unfolding t ncx_text_navMap epub_title_def ne
      by (simp add: ncx_header_def ncx_close_def)
    subgoal
      using i(1) unfolding ie .
    subgoal
      using i(2) unfolding ne .
    done
qed

lemma dec_small [simp]:
  "dec 1 = ''1''" "dec 2 = ''2''" "dec (Suc 0) = ''1''" "dec (Suc (Suc 0)) = ''2''"
  by code_simp+

lemma title_of_test:
  "Base ''test.cbz'' = ''test.cbz''" "TrimSuffix ''test.cbz'' ''.cbz'' = ''test''"
  by code_simp+

lemma upt_two [simp]: "[Suc 0 ..< 3] = [1, 2]"
  by (simp add: upt_rec)

theorem convert_writes_one_page_per_image_witness:
  "snd (ConvertFromCBZ (insertion_runtime sample_fs) test_archive ''test.epub'') = None
   \<and> map e_Name (zw (fst (ConvertFromCBZ (insertion_runtime sample_fs) test_archive ''test.epub''))) =
     [''mimetype'', ''META-INF/container.xml'',
      ''OEBPS/images/image001.jpg'', ''OEBPS/images/image002.png'',
      ''OEBPS/pages/page001.xhtml'', ''OEBPS/pages/page002.xhtml'',
      ''OEBPS/content.opf'', ''OEBPS/toc.ncx'']
   \<and> contentOPF (fst (ConvertFromCBZ (insertion_runtime sample_fs) test_archive ''test.epub'')) =
      ''<?xml version=\"1.0\" encoding=\"UTF-8\"?>
<package xmlns=\"http://www.idpf.org/2007/opf\" unique-identifier=\"BookID\" version=\"2.0\">
  <metadata xmlns:dc=\"http://purl.org/dc/elements/1.1/\" xmlns:opf=\"http://www.idpf.org/2007/opf\">
    <dc:title>'' @ ''test'' @ ''</dc:title>
    <dc:language>en</dc:language>
    <dc:identifier id=\"BookID\">urn:uuid:'' @ ''123e4567-e89b-42d3-a456-426614174000'' @ ''</dc:identifier>
    <dc:date>'' @ ''2024-05-17'' @ ''</dc:date>
    <dc:creator>CBZ2EPUB Converter</dc:creator>
  </metadata>
  <manifest>
    <item id=\"ncx\" href=\"toc.ncx\" media-type=\"application/x-dtbncx+xml\"/>
''
      @ ''    <item id=\"image'' @ ''001'' @ ''\" href=\"images/'' @ ''image001.jpg'' @ ''\" media-type=\"'' @ ''image/jpeg'' @ ''\"/>
''
      @ ''    <item id=\"image'' @ ''002'' @ ''\" href=\"images/'' @ ''image002.png'' @ ''\" media-type=\"'' @ ''image/png'' @ ''\"/>
''
      @ ''    <item id=\"page'' @ ''001'' @ ''\" href=\"pages/'' @ ''page001.xhtml'' @ ''\" media-type=\"application/xhtml+xml\"/>
''
      @ ''    <item id=\"page'' @ ''002'' @ ''\" href=\"pages/'' @ ''page002.xhtml'' @ ''\" media-type=\"application/xhtml+xml\"/>
''
      @ ''  </manifest>
  <spine toc=\"ncx\">
''
      @ ''    <itemref idref=\"page'' @ ''001'' @ ''\"/>
''
      @ ''    <itemref idref=\"page'' @ ''002'' @ ''\"/>
''
      @ ''  </spine>
</package>''
   \<and> tocNCX (fst (ConvertFromCBZ (insertion_runtime sample_fs) test_archive ''test.epub'')) =
      ''<?xml version=\"1.0\" encoding=\"UTF-8\"?>
<!DOCTYPE ncx PUBLIC \"-//NISO//DTD ncx 2005-1//EN\" \"http://www.daisy.org/z3986/2005/ncx-2005-1.dtd\">
<ncx xmlns=\"http://www.daisy.org/z3986/2005/ncx/\" version=\"2005-1\">
  <head>
    <meta name=\"dtb:uid\" content=\"urn:uuid:'' @ ''123e4567-e89b-42d3-a456-426614174000'' @ ''\"/>
    <meta name=\"dtb:depth\" content=\"1\"/>
    <meta name=\"dtb:totalPageCount\" content=\"0\"/>
    <meta name=\"dtb:maxPageNumber\" content=\"0\"/>
  </head>
  <docTitle>
    <text>'' @ ''test'' @ ''</text>
  </docTitle>
  <navMap>
''
      @ ''    <navPoint id=\"navpoint-'' @ ''1'' @ ''\" playOrder=\"'' @ ''1'' @ ''\">
      <navLabel>
        <text>Page '' @ ''1'' @ ''</text>
      </navLabel>
      <content src=\"pages/page'' @ ''001'' @ ''.xhtml\"/>
    </navPoint>
''
      @ ''    <navPoint id=\"navpoint-'' @ ''2'' @ ''\" playOrder=\"'' @ ''2'' @ ''\">
      <navLabel>
        <text>Page '' @ ''2'' @ ''</text>
      </navLabel>
      <content src=\"pages/page'' @ ''002'' @ ''.xhtml\"/>
    </navPoint>
''
      @ ''  </navMap>
</ncx>''"
proof -
  let ?r = "ConvertFromCBZ (insertion_runtime sample_fs) test_archive ''test.epub''"
  have ok: "snd ?r = None"
    by (rule ConvertFromCBZ_ok) (rule insertion_runtime_simps)
  have r: "?r = (fst ?r, None)"
    unfolding ok [symmetric] by (rule prod.collapse [symmetric])
  note w = convert_writes_one_page_per_image [OF r]
  have i: "Images test_archive =
     [\<lparr>Name = ''image1.jpg'', Data = ''A'', MimeType = ''image/jpeg''\<rparr>,
      \<lparr>Name = ''image2.png'', Data = ''B'', MimeType = ''image/png''\<rparr>]"
    and n: "File_Name test_archive = ''test.cbz''"
    by (simp_all add: test_archive_def)
  show ?thesis
    apply (intro conjI)
    subgoal
      by (rule ok)
    subgoal
      using w [THEN conjunct1] unfolding i by (simp add: enumerate_two)
    subgoal
      using w [THEN conjunct2, THEN conjunct2, THEN conjunct1] unfolding i n title_of_test
      by (simp add: enumerate_two)
    subgoal
      using w [THEN conjunct2, THEN conjunct2, THEN conjunct2, THEN conjunct1]
      unfolding i n title_of_test by simp
    done
qed

lemma read_entries_bodies:
  "\<forall>zf \<in> set (retained uni zfs). \<exists>data. zf_Body zf = Body data \<Longrightarrow>
   read_entries uni zfs acc = Inr (acc @ map (image_of uni) (retained uni zfs))"
proof (induction zfs arbitrary: acc)
  case Nil
  then show ?case by (simp add: retained_def)
next
  case (Cons zf rest)
  show ?case
  proof (cases "zf_IsDir zf \<or> \<not> isImageFile uni (zf_Name zf)")
    case True
    with Cons show ?thesis
      by (auto simp: retained_def)
  next
    case False
    with Cons.prems obtain data where b: "zf_Body zf = Body data"
      by (auto simp: retained_def)
    from Cons.prems False have
      "\<forall>zf \<in> set (retained uni rest). \<exists>data. zf_Body zf = Body data"
      by (simp add: retained_def)
    from Cons.IH [OF this] False b show ?thesis
      by (simp add: retained_def image_of_def)
  qed
qed

lemma sorted_pair:
  assumes "mset xs = {#a, b#}" and "sorted (map f xs)" and "f a < (f b :: 'b :: linorder)"
  shows "xs = [a, b]"
proof -
  from assms(1) have "size (mset xs) = 2"
    by simp
  then have "length xs = 2"
    by simp
  then obtain x y where xs: "xs = [x, y]"
    by (cases xs; cases "tl xs") auto
  with assms(1) have "{#x, y#} = {#a, b#}"
    by simp
  then have "x = a \<and> y = b \<or> x = b \<and> y = a"
    by (auto simp: add_eq_conv_ex)
  with assms(2,3) xs show ?thesis
    by auto
qed

lemma Ext_notes [simp]: "Ext ''notes.txt'' = ''.txt''"
  by code_simp

lemma Base_test [simp]:
  "Base ''image1.jpg'' = ''image1.jpg''" "Base ''image2.png'' = ''image2.png''"
  "Base ''test.cbz'' = ''test.cbz''"
  by code_simp+

lemma ToLower_test [simp]:
  "ToLower uni ''.jpg'' = ''.jpg''" "ToLower uni ''.png'' = ''.png''"
  "ToLower uni ''.txt'' = ''.txt''"
  by (simp_all add: ToLower_def lower_byte_def)

lemma isImageFile_test [simp]:
  "isImageFile uni ''image1.jpg''" "isImageFile uni ''image2.png''"
  "\<not> isImageFile uni ''notes.txt''"
  by (simp_all add: isImageFile_def)

lemma getMimeType_test [simp]:
  "getMimeType uni ''image1.jpg'' = ''image/jpeg''"
  "getMimeType uni ''image2.png'' = ''image/png''"
  by (simp_all add: getMimeType_def)

lemma TrimSuffix_test [simp]: "TrimSuffix ''test.cbz'' ''.cbz'' = ''test''"
  by code_simp


lemma test_names_less: "''image1.jpg'' < ''image2.png''"
  by code_simp

lemma retained_test:
  assumes "mset files = {#file_entry ''image1.jpg'' ''A'', file_entry ''image2.png'' ''B'', notes#}"
    and "zf_Name notes = ''notes.txt''"
  shows "mset (map (image_of uni) (retained uni files)) =
     {#\<lparr>Name = ''image1.jpg'', Data = ''A'', MimeType = ''image/jpeg''\<rparr>,
       \<lparr>Name = ''image2.png'', Data = ''B'', MimeType = ''image/png''\<rparr>#}"
    and "\<forall>zf \<in> set (retained uni files). \<exists>data. zf_Body zf = Body data"
proof -
  have "mset (retained uni files) =
      filter_mset (\<lambda>file. \<not> zf_IsDir file \<and> isImageFile uni (zf_Name file)) (mset files)"
    by (simp add: retained_def)
  also have "\<dots> = {#file_entry ''image1.jpg'' ''A'', file_entry ''image2.png'' ''B''#}"
    unfolding assms(1) using assms(2) by (simp add: file_entry_def)
  finally have m: "mset (retained uni files) =
      {#file_entry ''image1.jpg'' ''A'', file_entry ''image2.png'' ''B''#}" .
  have "mset (map (image_of uni) (retained uni files)) =
      image_mset (image_of uni) (mset (retained uni files))"
    by simp
  also have "\<dots> = {#\<lparr>Name = ''image1.jpg'', Data = ''A'', MimeType = ''image/jpeg''\<rparr>,
       \<lparr>Name = ''image2.png'', Data = ''B'', MimeType = ''image/png''\<rparr>#}"
    unfolding m by (simp add: image_of_def file_entry_def)
  finally show "mset (map (image_of uni) (retained uni files)) =
     {#\<lparr>Name = ''image1.jpg'', Data = ''A'', MimeType = ''image/jpeg''\<rparr>,
       \<lparr>Name = ''image2.png'', Data = ''B'', MimeType = ''image/png''\<rparr>#}" .
  have "set (retained uni files) = set_mset (mset (retained uni files))"
    by simp
  also have "\<dots> = {file_entry ''image1.jpg'' ''A'', file_entry ''image2.png'' ''B''}"
    unfolding m by auto
  finally show "\<forall>zf \<in> set (retained uni files). \<exists>data. zf_Body zf = Body data"
    by (simp add: file_entry_def)
qed

lemma ReadFile_test:
  assumes "sort_contract (sort_Slice rt)"
    and "OpenReader rt ''test.cbz'' = Inr files"
    and "mset files = {#file_entry ''image1.jpg'' ''A'', file_entry ''image2.png'' ''B'', notes#}"
    and "zf_Name notes = ''notes.txt''"
  shows "ReadFile rt ''test.cbz'' = Inr test_archive"
proof -
  let ?uni = "unicode_lower rt"
  let ?images = "map (image_of ?uni) (retained ?uni files)"
  note r = retained_test [OF assms(3,4), of ?uni]
  have e: "read_entries ?uni files [] = Inr ?images"
    using read_entries_bodies [OF r(2), of "[]"] by simp
  have "mset (sort_Slice rt name_less ?images) = mset ?images"
    by (rule sort_contract_name(1) [OF assms(1)])
  with r(1) have "mset (sort_Slice rt name_less ?images) =
     {#\<lparr>Name = ''image1.jpg'', Data = ''A'', MimeType = ''image/jpeg''\<rparr>,
       \<lparr>Name = ''image2.png'', Data = ''B'', MimeType = ''image/png''\<rparr>#}"
    by simp
  moreover have "sorted (map Name (sort_Slice rt name_less ?images))"
    by (rule sort_contract_name(2) [OF assms(1)])
  ultimately have "sort_Slice rt name_less ?images =
     [\<lparr>Name = ''image1.jpg'', Data = ''A'', MimeType = ''image/jpeg''\<rparr>,
      \<lparr>Name = ''image2.png'', Data = ''B'', MimeType = ''image/png''\<rparr>]"
    by (rule sorted_pair) (simp add: test_names_less)
  with e assms(2) show ?thesis
    by (simp add: ReadFile_def test_archive_def)
qed

lemma Convert_test_entries:
  assumes "ConvertFromCBZ rt test_archive outputFile = (s, None)"
  shows "zw s =
      [\<lparr>e_Name = ''mimetype'', e_Method = Store, e_Data = mimetype_bytes\<rparr>,
       \<lparr>e_Name = ''META-INF/container.xml'', e_Method = Deflate, e_Data = container_xml\<rparr>,
       \<lparr>e_Name = ''OEBPS/images/image001.jpg'', e_Method = Deflate, e_Data = ''A''\<rparr>,
       \<lparr>e_Name = ''OEBPS/images/image002.png'', e_Method = Deflate, e_Data = ''B''\<rparr>,
       \<lparr>e_Name = ''OEBPS/pages/page001.xhtml'', e_Method = Deflate,
        e_Data = page_xhtml 1 ''image001.jpg''\<rparr>,
       \<lparr>e_Name = ''OEBPS/pages/page002.xhtml'', e_Method = Deflate,
        e_Data = page_xhtml 2 ''image002.png''\<rparr>,
       \<lparr>e_Name = ''OEBPS/content.opf'', e_Method = Deflate, e_Data = contentOPF s\<rparr>,
       \<lparr>e_Name = ''OEBPS/toc.ncx'', e_Method = Deflate, e_Data = tocNCX s\<rparr>]"
    and "contentOPF s =
      opf_header ''test'' (GenerateUUID rt) (today rt)
      @ image_item 1 ''image001.jpg'' ''image/jpeg'' @ image_item 2 ''image002.png'' ''image/png''
      @ page_item 1 ''page001.xhtml'' @ page_item 2 ''page002.xhtml''
      @ spine_open @ itemref 1 @ itemref 2 @ spine_close"
    and "tocNCX s =
      ncx_header (GenerateUUID rt) ''test'' @ navPoint 1 @ navPoint 2 @ ncx_close"
proof -
  have s: "s = \<lparr>zw = epub_entries rt test_archive, contentOPF = opf_text rt test_archive,
              tocNCX = ncx_text rt test_archive\<rparr>"
    using assms by (rule ConvertFromCBZ_None)
  have i: "Images test_archive =
     [\<lparr>Name = ''image1.jpg'', Data = ''A'', MimeType = ''image/jpeg''\<rparr>,
      \<lparr>Name = ''image2.png'', Data = ''B'', MimeType = ''image/png''\<rparr>]"
    and n: "File_Name test_archive = ''test.cbz''"
    by (simp_all add: test_archive_def)
  have c: "contentOPF s = opf_text rt test_archive"
    and t: "tocNCX s = ncx_text rt test_archive"
    unfolding s by simp_all
  show "contentOPF s =
      opf_header ''test'' (GenerateUUID rt) (today rt)
      @ image_item 1 ''image001.jpg'' ''image/jpeg'' @ image_item 2 ''image002.png'' ''image/png''
      @ page_item 1 ''page001.xhtml'' @ page_item 2 ''page002.xhtml''
      @ spine_open @ itemref 1 @ itemref 2 @ spine_close"
    unfolding c opf_text_def epub_title_def i n
    by (simp add: enumerate_two image_name_def page_name_def eval_nat_numeral)
  show "tocNCX s =
      ncx_header (GenerateUUID rt) ''test'' @ navPoint 1 @ navPoint 2 @ ncx_close"
    unfolding t ncx_text_def epub_title_def i n
    by (simp add: enumerate_two eval_nat_numeral)
  have "zw s = epub_entries rt test_archive"
    unfolding s by simp
  then show "zw s =
      [\<lparr>e_Name = ''mimetype'', e_Method = Store, e_Data = mimetype_bytes\<rparr>,
       \<lparr>e_Name = ''META-INF/container.xml'', e_Method = Deflate, e_Data = container_xml\<rparr>,
       \<lparr>e_Name = ''OEBPS/images/image001.jpg'', e_Method = Deflate, e_Data = ''A''\<rparr>,
       \<lparr>e_Name = ''OEBPS/images/image002.png'', e_Method = Deflate, e_Data = ''B''\<rparr>,
       \<lparr>e_Name = ''OEBPS/pages/page001.xhtml'', e_Method = Deflate,
        e_Data = page_xhtml 1 ''image001.jpg''\<rparr>,
       \<lparr>e_Name = ''OEBPS/pages/page002.xhtml'', e_Method = Deflate,
        e_Data = page_xhtml 2 ''image002.png''\<rparr>,
       \<lparr>e_Name = ''OEBPS/content.opf'', e_Method = Deflate, e_Data = contentOPF s\<rparr>,
       \<lparr>e_Name = ''OEBPS/toc.ncx'', e_Method = Deflate, e_Data = tocNCX s\<rparr>]"
    unfolding c t epub_entries_def i entry_def image_entry_eq page_entry_eq
    by (simp add: enumerate_two eval_nat_numeral)
qed


text \<open>
  C7: the container \<open>test.cbz\<close> holds \<open>image1.jpg\<close> with the content "A",
  \<open>image2.png\<close> with the content "B" and \<open>notes.txt\<close>, in any order.  Then
  \<^verbatim>\<open>ReadFile\<close> returns the two images, \<open>image1.jpg\<close> of type \<open>image/jpeg\<close>
  before \<open>image2.png\<close> of type \<open>image/png\<close>, without \<open>notes.txt\<close>.  A conversion
  of that archive that returns no error has written eight entries: among them
  \<open>OEBPS/images/image001.jpg\<close> with the content "A", \<open>OEBPS/images/image002.png\<close>
  with the content "B" and the two pages \<open>page001.xhtml\<close> and \<open>page002.xhtml\<close>; the
  spine of \<open>content.opf\<close> is \<open>page001\<close>, \<open>page002\<close>.
\<close>

theorem test_cbz_read_then_convert:
  assumes "sort_contract (sort_Slice rt)"
    and "OpenReader rt ''test.cbz'' = Inr files"
    and "mset files = {#file_entry ''image1.jpg'' ''A'', file_entry ''image2.png'' ''B'', notes#}"
    and "zf_Name notes = ''notes.txt''"
    and "ConvertFromCBZ rt
           \<lparr>File_Name = ''test.cbz'',
            Images = [\<lparr>Name = ''image1.jpg'', Data = ''A'', MimeType = ''image/jpeg''\<rparr>,
                      \<lparr>Name = ''image2.png'', Data = ''B'', MimeType = ''image/png''\<rparr>]\<rparr>
           outputFile = (s, None)"
  shows "ReadFile rt ''test.cbz'' =
      Inr \<lparr>File_Name = ''test.cbz'',
           Images = [\<lparr>Name = ''image1.jpg'', Data = ''A'', MimeType = ''image/jpeg''\<rparr>,
                     \<lparr>Name = ''image2.png'', Data = ''B'', MimeType = ''image/png''\<rparr>]\<rparr>
    \<and> zw s =
      [\<lparr>e_Name = ''mimetype'', e_Method = Store, e_Data = mimetype_bytes\<rparr>,
       \<lparr>e_Name = ''META-INF/container.xml'', e_Method = Deflate, e_Data = container_xml\<rparr>,
       \<lparr>e_Name = ''OEBPS/images/image001.jpg'', e_Method = Deflate, e_Data = ''A''\<rparr>,
       \<lparr>e_Name = ''OEBPS/images/image002.png'', e_Method = Deflate, e_Data = ''B''\<rparr>,
       \<lparr>e_Name = ''OEBPS/pages/page001.xhtml'', e_Method = Deflate,
        e_Data = page_xhtml 1 ''image001.jpg''\<rparr>,
       \<lparr>e_Name = ''OEBPS/pages/page002.xhtml'', e_Method = Deflate,
        e_Data = page_xhtml 2 ''image002.png''\<rparr>,
       \<lparr>e_Name = ''OEBPS/content.opf'', e_Method = Deflate, e_Data = contentOPF s\<rparr>,
       \<lparr>e_Name = ''OEBPS/toc.ncx'', e_Method = Deflate, e_Data = tocNCX s\<rparr>]
    \<and> contentOPF s =
      opf_header ''test'' (GenerateUUID rt) (today rt)
      @ image_item 1 ''image001.jpg'' ''image/jpeg'' @ image_item 2 ''image002.png'' ''image/png''
      @ page_item 1 ''page001.xhtml'' @ page_item 2 ''page002.xhtml''
      @ spine_open
      @ ''    <itemref idref=\"page001\"/>
'' @ ''    <itemref idref=\"page002\"/>
''
      @ spine_close"
proof -
  have r: "ReadFile rt ''test.cbz'' = Inr test_archive"
    using assms(1-4) by (rule ReadFile_test)
  have c: "ConvertFromCBZ rt test_archive outputFile = (s, None)"
    unfolding test_archive_def by (rule assms(5))
  have i: "itemref 1 = ''    <itemref idref=\"page001\"/>
''" "itemref 2 = ''    <itemref idref=\"page002\"/>
''"
    by (simp_all add: itemref_def)
  note e = Convert_test_entries [OF c]
  from r e(1) e(2) [unfolded i] show ?thesis
    unfolding test_archive_def by (intro conjI)
qed

theorem test_cbz_read_then_convert_witness:
  "ReadFile (insertion_runtime sample_fs) ''test.cbz'' =
      Inr \<lparr>File_Name = ''test.cbz'',
           Images = [\<lparr>Name = ''image1.jpg'', Data = ''A'', MimeType = ''image/jpeg''\<rparr>,
                     \<lparr>Name = ''image2.png'', Data = ''B'', MimeType = ''image/png''\<rparr>]\<rparr>
   \<and> snd (ConvertFromCBZ (insertion_runtime sample_fs) test_archive ''test.epub'') = None
   \<and> map (\<lambda>e. (e_Name e, e_Data e))
       (take 2 (drop 2 (zw (fst (ConvertFromCBZ (insertion_runtime sample_fs) test_archive
          ''test.epub''))))) =
     [(''OEBPS/images/image001.jpg'', ''A''), (''OEBPS/images/image002.png'', ''B'')]"
proof -
  let ?r = "ConvertFromCBZ (insertion_runtime sample_fs) test_archive ''test.epub''"
  have ok: "snd ?r = None"
    by (rule ConvertFromCBZ_ok) (rule insertion_runtime_simps)
  have r: "?r = (fst ?r, None)"
    unfolding ok [symmetric] by (rule prod.collapse [symmetric])
  have o: "OpenReader (insertion_runtime sample_fs) ''test.cbz'' =
      Inr [file_entry ''image1.jpg'' ''A'', file_entry ''image2.png'' ''B'',
           file_entry ''notes.txt'' ''to do'']"
    by (simp add: sample_fs_def)
  have n: "zf_Name (file_entry ''notes.txt'' ''to do'') = ''notes.txt''"
    by (simp add: file_entry_def)
  have m: "mset [file_entry ''image1.jpg'' ''A'', file_entry ''image2.png'' ''B'',
           file_entry ''notes.txt'' ''to do''] =
      {#file_entry ''image1.jpg'' ''A'', file_entry ''image2.png'' ''B'',
        file_entry ''notes.txt'' ''to do''#}"
    by simp
  from test_cbz_read_then_convert
    [OF insertion_runtime_simps(1) o m n r [unfolded test_archive_def]] ok
  show ?thesis
    by (simp add: test_archive_def)
qed


end
